theory Spec2Isabelle
  imports Main
begin

section \<open>Strings\<close>

text \<open>
  JavaScript strings are modelled as \<^typ>\<open>string\<close>: a list of code units below 256
  (the Latin-1 range). \<open>length\<close> is the \<^verbatim>\<open>.length\<close> of the source.
\<close>

text \<open>The class \<^verbatim>\<open>\s\<close> of a regular expression, on code units below 256:
  tab, line feed, vertical tab, form feed, carriage return, space, no-break space.\<close>

definition isSpace :: "char \<Rightarrow> bool" where
  "isSpace c = (let n = (of_char c :: nat) in (9 \<le> n \<and> n \<le> 13) \<or> n = 32 \<or> n = 160)"

text \<open>\<^verbatim>\<open>String.prototype.toLowerCase\<close> on code units below 256: A to Z, and the
  accented capitals 192 to 222 without the multiplication sign 215, move up by 32.\<close>

definition lowerChar :: "char \<Rightarrow> char" where
  "lowerChar c =
     (let n = (of_char c :: nat)
      in if (65 \<le> n \<and> n \<le> 90) \<or> (192 \<le> n \<and> n \<le> 222 \<and> n \<noteq> 215)
         then char_of (n + 32) else c)"

definition toLowerCase :: "string \<Rightarrow> string" where
  "toLowerCase s = map lowerChar s"

definition startsWith :: "string \<Rightarrow> string \<Rightarrow> bool" where
  "startsWith s p = (take (length p) s = p)"

text \<open>\<^verbatim>\<open>s.includes(kw)\<close>\<close>

fun includesStr :: "string \<Rightarrow> string \<Rightarrow> bool" where
  "includesStr [] kw = (kw = [])"
| "includesStr (c # cs) kw = (startsWith (c # cs) kw \<or> includesStr cs kw)"

text \<open>\<^verbatim>\<open>s.split(/\s+/)\<close>: the pieces between the maximal runs of white space; a
  leading or trailing run leaves an empty piece, and the empty string gives one empty piece.\<close>

function splitWs :: "string \<Rightarrow> string list" where
  "splitWs [] = [[]]"
| "splitWs (c # cs) =
     (if isSpace c then [] # splitWs (dropWhile isSpace cs)
      else (case splitWs cs of [] \<Rightarrow> [[c]] | w # ws \<Rightarrow> (c # w) # ws))"
  by pat_completeness auto
termination
  by (relation "measure length") (auto simp: le_imp_less_Suc length_dropWhile_le)

text \<open>\<^verbatim>\<open>speech.split(/\s+/).filter(Boolean).length\<close>\<close>

definition wordCount :: "string \<Rightarrow> nat" where
  "wordCount speech = length (filter (\<lambda>w. w \<noteq> []) (splitWs speech))"

text \<open>\<^verbatim>\<open>String.prototype.trim\<close>\<close>

definition trim :: "string \<Rightarrow> string" where
  "trim s = rev (dropWhile isSpace (rev (dropWhile isSpace s)))"

section \<open>The component \<^verbatim>\<open>ImmersiveEVI\<close>\<close>

subsection \<open>Constants\<close>

definition PAUSE_KEYWORDS :: "string list" where
  "PAUSE_KEYWORDS =
     [''hold on'', ''wait'', ''one second'', ''let me think'', ''give me a moment'', ''pause'']"

definition QUICK_KEYWORDS :: "string list" where
  "QUICK_KEYWORDS = [''quick'', ''brief'', ''short'', ''hurry'', ''rush'', ''fast'']"

definition DETAILED_KEYWORDS :: "string list" where
  "DETAILED_KEYWORDS =
     [''detail'', ''explain'', ''more time'', ''elaborate'', ''in depth'',
      ''how does that work'', ''what do you mean'']"

definition JUDGE_DEBOUNCE_MS :: int where
  "JUDGE_DEBOUNCE_MS = 400"

definition MIN_WORDS_FOR_JUDGE :: nat where
  "MIN_WORDS_FOR_JUDGE = 8"

text \<open>\<^verbatim>\<open>MIN_SPEAKING_TIME_S = 1.5\<close>. Times are kept in whole milliseconds, as
  \<^verbatim>\<open>Date.now()\<close> gives them, so \<^verbatim>\<open>(now - start) / 1000 < 1.5\<close> is
  \<open>now - start < 1500\<close>.\<close>

definition MIN_SPEAKING_TIME_MS :: int where
  "MIN_SPEAKING_TIME_MS = 1500"

definition QUICK_CONTEXT :: string where
  "QUICK_CONTEXT = ''Keep responses very brief and concise. Answer in 1 brief sentence only.''"

definition DETAILED_CONTEXT :: string where
  "DETAILED_CONTEXT = ''Detailed mode: Answer in two sentences and include a quick example.''"

subsection \<open>Data\<close>

datatype role = User | Assistant

datatype mode = Normal | Quick | Detailed

text \<open>The interface \<^verbatim>\<open>Message\<close> of the transcript. The emotion scores are floating
  point and only displayed; they are left out. An absent \<^verbatim>\<open>hidden\<close> or
  \<^verbatim>\<open>isInterrupt\<close> is \<open>False\<close>: the source only tests their truthiness.\<close>

record Message =
  role :: role
  content :: string
  timestamp :: int
  hidden :: bool
  isInterrupt :: bool

type_synonym history_entry = "role \<times> string"

text \<open>What the component calls on the voice transport and on the network.\<close>

datatype action =
    Mute | Unmute | MuteAudio | UnmuteAudio | PauseAssistant | ResumeAssistant
  | SendSessionSettings string
  | FetchJudge nat string "history_entry list" int
      \<comment> \<open>abort controller, speech, history slice, speaking time in ms\<close>
  | FetchSendAssistantInput "string option" string
      \<comment> \<open>chatId, text\<close>

text \<open>The callbacks handed to \<^verbatim>\<open>setTimeout\<close>.\<close>

datatype callback =
    SettleDone string  \<comment> \<open>the 200 ms promise of \<^verbatim>\<open>triggerInterrupt(message)\<close> resolves\<close>
  | ResumeCb           \<comment> \<open>step 6 of \<^verbatim>\<open>triggerInterrupt\<close>\<close>
  | UnmuteCb           \<comment> \<open>step 7\<close>
  | CooldownCb         \<comment> \<open>step 8\<close>
  | MicReopenCb        \<comment> \<open>the timer of \<^verbatim>\<open>triggerPause\<close>\<close>
  | AudioUnmuteCb      \<comment> \<open>the timer of the \<^verbatim>\<open>user_interruption\<close> branch\<close>

type_synonym timer = "nat \<times> int \<times> callback"  \<comment> \<open>handle, due time, callback\<close>

text \<open>
  The React state and refs of the component, the timer queue of the event loop, the
  abort controllers, and the calls made so far with the time of each.
  \<open>isInterruptingRef\<close> stands for the ref and for the state \<^verbatim>\<open>isInterrupting\<close>,
  which the source always writes together. Of the console output only warnings and
  errors are kept.
\<close>

record evi =
  conversation :: "Message list"
  isPaused :: bool
  mode :: mode
  micUnmuteTimeoutRef :: "nat option"
  chatIdRef :: "string option"
  turnStartTimeRef :: int
  lastJudgeTimeRef :: int
  judgeAbortControllerRef :: "nat option"
  conversationHistoryRef :: "history_entry list"
  interruptCooldownRef :: bool
  isInterruptingRef :: bool
  clock :: int
  timers :: "timer list"
  nextTimer :: nat
  nextController :: nat
  aborted :: "nat list"
  injecting :: "string list"
  console :: "string list"
  trace :: "(int \<times> action) list"

text \<open>The messages of the voice transport that the component looks at. A user or
  assistant message carries \<^verbatim>\<open>message?.content || ""\<close>; a user message also carries
  \<^verbatim>\<open>interim === true\<close>.\<close>

datatype hume_message =
    ChatMetadata "string option"
  | UserInterruption
  | UserMessage string bool
  | AssistantMessage string
  | OtherMessage

text \<open>How the call to \<^verbatim>\<open>/api/send-assistant-input\<close> ends.\<close>

datatype inject_outcome = InjectOk | InjectStatus nat | InjectThrew

text \<open>How the call to \<^verbatim>\<open>/api/judge-speech\<close> ends, when it was not aborted: a
  network error, a status that is not ok, or a body with \<^verbatim>\<open>interrupt\<close> and
  \<^verbatim>\<open>message\<close> (string or null).\<close>

datatype judge_reply = JudgeThrew | JudgeStatus nat | JudgeJson bool "string option"

subsection \<open>Helpers of the runtime\<close>

text \<open>Truthiness of a string or null.\<close>

fun known :: "string option \<Rightarrow> bool" where
  "known None = False"
| "known (Some c) = (c \<noteq> [])"

definition emit :: "action \<Rightarrow> evi \<Rightarrow> evi" where
  "emit a s = s\<lparr>trace := trace s @ [(clock s, a)]\<rparr>"

definition warn :: "string \<Rightarrow> evi \<Rightarrow> evi" where
  "warn txt s = s\<lparr>console := console s @ [txt]\<rparr>"

definition setTimeout :: "callback \<Rightarrow> int \<Rightarrow> evi \<Rightarrow> nat \<times> evi" where
  "setTimeout cb delay s =
     (nextTimer s,
      s\<lparr>timers := timers s @ [(nextTimer s, clock s + delay, cb)],
        nextTimer := Suc (nextTimer s)\<rparr>)"

definition clearTimeout :: "nat \<Rightarrow> evi \<Rightarrow> evi" where
  "clearTimeout h s = s\<lparr>timers := filter (\<lambda>t. fst t \<noteq> h) (timers s)\<rparr>"

text \<open>The pending timer that is due first; of two with the same due time, the one set
  first.\<close>

fun earliest :: "timer list \<Rightarrow> timer option" where
  "earliest [] = None"
| "earliest (t # ts) =
     (case earliest ts of
        None \<Rightarrow> Some t
      | Some u \<Rightarrow> if fst (snd t) \<le> fst (snd u) then Some t else Some u)"

subsection \<open>The judge client\<close>

text \<open>\<^verbatim>\<open>conversationHistoryRef.current.slice(-4)\<close>\<close>

definition lastFour :: "'a list \<Rightarrow> 'a list" where
  "lastFour xs = drop (length xs - 4) xs"

text \<open>
  \<^verbatim>\<open>callLLMJudge\<close> up to the moment its request is sent. The four early returns are
  in the order of the source. \<^verbatim>\<open>abort()\<close> on the stored controller puts it into
  \<open>aborted\<close>; \<^verbatim>\<open>new AbortController()\<close> takes the next number.
\<close>

definition callLLMJudge :: "string \<Rightarrow> evi \<Rightarrow> evi" where
  "callLLMJudge speech s =
     (if interruptCooldownRef s \<or> isInterruptingRef s then s
      else if wordCount speech < MIN_WORDS_FOR_JUDGE then s
      else let speakingTime = clock s - turnStartTimeRef s in
        if speakingTime < MIN_SPEAKING_TIME_MS then s
        else if clock s - lastJudgeTimeRef s < JUDGE_DEBOUNCE_MS then s
        else
          let s1 = s\<lparr>lastJudgeTimeRef := clock s\<rparr>;
              s2 = (case judgeAbortControllerRef s1 of
                      None \<Rightarrow> s1
                    | Some c \<Rightarrow> s1\<lparr>aborted := c # aborted s1\<rparr>);
              s3 = s2\<lparr>judgeAbortControllerRef := Some (nextController s2),
                      nextController := Suc (nextController s2)\<rparr>
          in emit (FetchJudge (nextController s2) speech
                     (lastFour (conversationHistoryRef s3)) speakingTime) s3)"

subsection \<open>The interrupt sequence\<close>

text \<open>\<^verbatim>\<open>triggerInterrupt\<close> up to its first \<^verbatim>\<open>await\<close> (the 200 ms promise).\<close>

definition triggerInterrupt :: "string \<Rightarrow> evi \<Rightarrow> evi" where
  "triggerInterrupt message s =
     (if \<not> known (chatIdRef s) \<or> isInterruptingRef s then s
      else
        let s1 = s\<lparr>interruptCooldownRef := True, isInterruptingRef := True\<rparr>;
            s2 = emit Mute s1;
            s3 = emit PauseAssistant s2
        in snd (setTimeout (SettleDone message) 200 s3))"

text \<open>After the 200 ms: the request to \<^verbatim>\<open>/api/send-assistant-input\<close> is sent, and the
  invocation waits for it with its \<open>message\<close>.\<close>

definition triggerInterrupt_afterSettle :: "string \<Rightarrow> evi \<Rightarrow> evi" where
  "triggerInterrupt_afterSettle message s =
     (emit (FetchSendAssistantInput (chatIdRef s) message) s)
       \<lparr>injecting := injecting s @ [message]\<rparr>"

text \<open>After the request has ended, in whichever way: steps 5 to 7 of the source.\<close>

definition triggerInterrupt_afterFetch :: "inject_outcome \<Rightarrow> string \<Rightarrow> evi \<Rightarrow> evi" where
  "triggerInterrupt_afterFetch outcome message s =
     (let s1 = (case outcome of
                  InjectOk \<Rightarrow> s
                | InjectStatus st \<Rightarrow> warn ''REST API failed:'' s
                | InjectThrew \<Rightarrow> warn ''REST API error:'' s);
          s2 = s1\<lparr>conversationHistoryRef := conversationHistoryRef s1 @ [(Assistant, message)]\<rparr>;
          s3 = s2\<lparr>conversation := conversation s2 @
                 [\<lparr>role = Assistant, content = message, timestamp = clock s2,
                   hidden = False, isInterrupt = True\<rparr>]\<rparr>;
          s4 = snd (setTimeout ResumeCb 100 s3)
      in snd (setTimeout UnmuteCb 4000 s4))"

text \<open>The request to \<^verbatim>\<open>/api/send-assistant-input\<close> ends: the waiting invocation goes
  on.\<close>

definition injectSettled :: "inject_outcome \<Rightarrow> evi \<Rightarrow> evi" where
  "injectSettled outcome s =
     (case injecting s of
        [] \<Rightarrow> s
      | message # rest \<Rightarrow> triggerInterrupt_afterFetch outcome message (s\<lparr>injecting := rest\<rparr>))"

text \<open>
  The request of \<^verbatim>\<open>callLLMJudge\<close> made with controller \<open>c\<close> ends. An aborted request
  rejects with \<^verbatim>\<open>AbortError\<close>, which the \<^verbatim>\<open>catch\<close> passes over in silence; another
  error is a warning; a status that is not ok returns.
\<close>

definition judgeSettled :: "nat \<Rightarrow> judge_reply \<Rightarrow> evi \<Rightarrow> evi" where
  "judgeSettled c reply s =
     (if c \<in> set (aborted s) then s
      else case reply of
        JudgeThrew \<Rightarrow> warn ''LLM Judge error:'' s
      | JudgeStatus st \<Rightarrow> s
      | JudgeJson interrupt message \<Rightarrow>
          (if interrupt \<and> known message \<and> known (chatIdRef s)
           then triggerInterrupt (the message) s else s))"

subsection \<open>Pause and resume\<close>

definition triggerPause :: "evi \<Rightarrow> evi" where
  "triggerPause s =
     (if isInterruptingRef s then s
      else
        let s1 = emit MuteAudio s;
            s2 = emit Mute s1;
            s3 = s2\<lparr>isPaused := True\<rparr>;
            s4 = (case micUnmuteTimeoutRef s3 of None \<Rightarrow> s3 | Some h \<Rightarrow> clearTimeout h s3);
            (h', s5) = setTimeout MicReopenCb 2000 s4
        in s5\<lparr>micUnmuteTimeoutRef := Some h'\<rparr>)"

definition handleResume :: "evi \<Rightarrow> evi" where
  "handleResume s =
     (if isInterruptingRef s then s
      else
        let s1 = (case micUnmuteTimeoutRef s of None \<Rightarrow> s | Some h \<Rightarrow> clearTimeout h s);
            s2 = emit UnmuteAudio s1;
            s3 = emit Unmute s2
        in s3\<lparr>isPaused := False\<rparr>)"

text \<open>\<^verbatim>\<open>PAUSE_KEYWORDS.some(kw => content.toLowerCase().includes(kw))\<close>\<close>

definition isPausePhrase :: "string \<Rightarrow> bool" where
  "isPausePhrase c = list_ex (includesStr (toLowerCase c)) PAUSE_KEYWORDS"

text \<open>The effect that listens for an answer while paused. \<open>paused\<close> and \<open>isMuted\<close> are
  the values of \<^verbatim>\<open>isPaused\<close> and of the hook's \<^verbatim>\<open>isMuted\<close> in the render that
  the effect belongs to.\<close>

definition resumeEffect :: "bool \<Rightarrow> bool \<Rightarrow> hume_message \<Rightarrow> evi \<Rightarrow> evi" where
  "resumeEffect paused isMuted m s =
     (if \<not> paused \<or> isMuted then s
      else case m of
        UserMessage c isInterim \<Rightarrow>
          (if \<not> isPausePhrase c \<and> length c > 3 then handleResume s else s)
      | _ \<Rightarrow> s)"

subsection \<open>Keywords\<close>

text \<open>Each loop of \<^verbatim>\<open>detectKeywords\<close> returns at the first keyword that the text
  includes when its second condition holds, and that condition is the same for every
  keyword of the loop.\<close>

definition detectKeywords :: "string \<Rightarrow> evi \<Rightarrow> evi" where
  "detectKeywords text s =
     (let lower = toLowerCase text in
      if list_ex (includesStr lower) PAUSE_KEYWORDS \<and> \<not> isPaused s then triggerPause s
      else if list_ex (includesStr lower) QUICK_KEYWORDS \<and> mode s \<noteq> Quick
        then emit (SendSessionSettings QUICK_CONTEXT) (s\<lparr>mode := Quick\<rparr>)
      else if list_ex (includesStr lower) DETAILED_KEYWORDS \<and> mode s \<noteq> Detailed
        then emit (SendSessionSettings DETAILED_CONTEXT) (s\<lparr>mode := Detailed\<rparr>)
      else s)"

subsection \<open>Messages of the transport\<close>

text \<open>The two \<^verbatim>\<open>setConversation\<close> updates and the update of the history for an
  assistant message.\<close>

definition upsertUser :: "string \<Rightarrow> int \<Rightarrow> Message list \<Rightarrow> Message list" where
  "upsertUser c now prev =
     (if prev \<noteq> [] \<and> role (last prev) = User
      then butlast prev @ [(last prev)\<lparr>content := c\<rparr>]
      else prev @ [\<lparr>role = User, content = c, timestamp = now,
                    hidden = False, isInterrupt = False\<rparr>])"

definition upsertAssistant :: "string \<Rightarrow> bool \<Rightarrow> int \<Rightarrow> Message list \<Rightarrow> Message list" where
  "upsertAssistant c paused now prev =
     (if prev \<noteq> [] \<and> role (last prev) = Assistant \<and> \<not> hidden (last prev)
      then butlast prev @
           [(last prev)\<lparr>content := content (last prev) @ '' '' @ c,
                         hidden := (if paused then True else hidden (last prev))\<rparr>]
      else prev @ [\<lparr>role = Assistant, content = c, timestamp = now,
                    hidden = paused, isInterrupt = False\<rparr>])"

definition pushAssistant :: "string \<Rightarrow> history_entry list \<Rightarrow> history_entry list" where
  "pushAssistant c h =
     (if h \<noteq> [] \<and> fst (last h) = Assistant
      then butlast h @ [(Assistant, snd (last h) @ '' '' @ c)]
      else h @ [(Assistant, c)])"

text \<open>The \<^verbatim>\<open>user_message\<close> branch of the effect that processes the messages.\<close>

definition userMessage :: "string \<Rightarrow> bool \<Rightarrow> evi \<Rightarrow> evi" where
  "userMessage c isInterim s =
     (let s1 = (if isInterim \<and> turnStartTimeRef s = 0
                then s\<lparr>turnStartTimeRef := clock s\<rparr> else s);
          s2 = s1\<lparr>conversation := upsertUser c (clock s1) (conversation s1)\<rparr>;
          s3 = detectKeywords c s2;
          s4 = (if isInterim \<and> \<not> isInterruptingRef s3 then callLLMJudge c s3 else s3)
      in if \<not> isInterim \<and> c \<noteq> []
         then s4\<lparr>conversationHistoryRef := conversationHistoryRef s4 @ [(User, c)],
                 turnStartTimeRef := 0\<rparr>
         else s4)"

definition assistantMessage :: "string \<Rightarrow> evi \<Rightarrow> evi" where
  "assistantMessage c s =
     (let s1 = s\<lparr>conversation := upsertAssistant c (isPaused s) (clock s) (conversation s)\<rparr>
      in if c \<noteq> []
         then s1\<lparr>conversationHistoryRef := pushAssistant c (conversationHistoryRef s1)\<rparr>
         else s1)"

text \<open>One run of the effect that processes the last message.\<close>

fun processMessage :: "hume_message \<Rightarrow> evi \<Rightarrow> evi" where
  "processMessage (ChatMetadata chatId) s =
     (if known chatId then s\<lparr>chatIdRef := chatId\<rparr> else s)"
| "processMessage UserInterruption s = snd (setTimeout AudioUnmuteCb 100 (emit MuteAudio s))"
| "processMessage (UserMessage c isInterim) s = userMessage c isInterim s"
| "processMessage (AssistantMessage c) s = assistantMessage c s"
| "processMessage OtherMessage s = s"

subsection \<open>The event loop\<close>

text \<open>What each timer does when it expires.\<close>

fun fire :: "callback \<Rightarrow> evi \<Rightarrow> evi" where
  "fire (SettleDone message) s = triggerInterrupt_afterSettle message s"
| "fire ResumeCb s = emit ResumeAssistant s"
| "fire UnmuteCb s =
     (let s1 = emit Unmute s;
          s2 = s1\<lparr>isInterruptingRef := False\<rparr>
      in snd (setTimeout CooldownCb 8000 s2))"
| "fire CooldownCb s = s\<lparr>interruptCooldownRef := False\<rparr>"
| "fire MicReopenCb s = (if \<not> isInterruptingRef s then emit Unmute s else s)"
| "fire AudioUnmuteCb s = emit UnmuteAudio s"

text \<open>
  The events of the single-threaded loop. \<open>Fire\<close>: the pending timer due first
  expires, at its due time, or now if that time is already past. The others arrive
  some milliseconds after the event before: the end of a request, and \<open>Hume\<close>, one
  run of the two effects on the last message of the transport, with the hook's
  \<^verbatim>\<open>isMuted\<close> of that render. The effects list \<^verbatim>\<open>isPaused\<close> and
  \<^verbatim>\<open>isMuted\<close> among their dependencies; when React runs them again on the same
  message because one of these has changed, that is one more \<open>Hume\<close> event with the
  same message.
\<close>

datatype event =
    Fire
  | Hume nat hume_message bool
  | JudgeSettled nat nat judge_reply
  | InjectSettled nat inject_outcome

definition advance :: "nat \<Rightarrow> evi \<Rightarrow> evi" where
  "advance dt s = s\<lparr>clock := clock s + int dt\<rparr>"

fun step :: "event \<Rightarrow> evi \<Rightarrow> evi" where
  "step Fire s =
     (case earliest (timers s) of
        None \<Rightarrow> s
      | Some (h, due, cb) \<Rightarrow>
          fire cb (s\<lparr>clock := max (clock s) due,
                     timers := filter (\<lambda>t. fst t \<noteq> h) (timers s)\<rparr>))"
| "step (Hume dt m isMuted) s =
     (let s1 = advance dt s
      in resumeEffect (isPaused s1) isMuted m (processMessage m s1))"
| "step (JudgeSettled dt c reply) s = judgeSettled c reply (advance dt s)"
| "step (InjectSettled dt outcome) s = injectSettled outcome (advance dt s)"

definition run :: "event list \<Rightarrow> evi \<Rightarrow> evi" where
  "run evs s = foldl (\<lambda>s e. step e s) s evs"

text \<open>The component as it is mounted, at time \<open>t\<close>.\<close>

definition initial :: "int \<Rightarrow> evi" where
  "initial t =
     \<lparr>conversation = [], isPaused = False, mode = Normal, micUnmuteTimeoutRef = None,
      chatIdRef = None, turnStartTimeRef = 0, lastJudgeTimeRef = 0,
      judgeAbortControllerRef = None, conversationHistoryRef = [],
      interruptCooldownRef = False, isInterruptingRef = False, clock = t, timers = [],
      nextTimer = 1, nextController = 0, aborted = [], injecting = [], console = [],
      trace = []\<rparr>"

section \<open>The route \<^verbatim>\<open>/api/judge-speech\<close>\<close>

text \<open>The values of JavaScript that the handler can meet in a parsed body. Of a
  number only its being zero matters here, of an object or array nothing.\<close>

datatype jsval = JUndefined | JNull | JBool bool | JNum int | JStr string | JObject

fun truthy :: "jsval \<Rightarrow> bool" where
  "truthy JUndefined = False"
| "truthy JNull = False"
| "truthy (JBool b) = b"
| "truthy (JNum n) = (n \<noteq> 0)"
| "truthy (JStr t) = (t \<noteq> [])"
| "truthy JObject = True"

text \<open>The three fields that the handler reads from the object parsed out of the reply
  of the language model.\<close>

record llm_result =
  interrupt :: jsval
  reason :: jsval
  message :: jsval

datatype 'a outcome = Threw | Returned 'a

datatype js_error = SyntaxError | TypeError | UpstreamError

text \<open>A response: the body of a success (\<^verbatim>\<open>interrupt\<close>, \<^verbatim>\<open>reason\<close>,
  \<^verbatim>\<open>message\<close>; the statistics are left out), or a status with an error text.\<close>

datatype response = Json200 bool jsval jsval | JsonError nat string

text \<open>\<^verbatim>\<open>content.match(/\{[\s\S]*\}/)\<close>: from the first opening brace to the last
  closing brace after it.\<close>

definition jsonMatch :: "string \<Rightarrow> string option" where
  "jsonMatch c =
     (case dropWhile (\<lambda>x. x \<noteq> CHR ''{'') c of
        [] \<Rightarrow> None
      | b # r \<Rightarrow>
          (case rev (dropWhile (\<lambda>x. x \<noteq> CHR ''}'') (rev r)) of
             [] \<Rightarrow> None
           | t \<Rightarrow> Some (b # t)))"

definition defaultResult :: llm_result where
  "defaultResult = \<lparr>interrupt = JBool False, reason = JStr [], message = JNull\<rparr>"

text \<open>
  The \<^verbatim>\<open>try\<close> block of the handler. \<open>parse\<close> is \<^verbatim>\<open>JSON.parse\<close> (\<open>None\<close> when it
  throws), \<open>body\<close> the \<^verbatim>\<open>speech\<close> field of \<^verbatim>\<open>await request.json()\<close>, and
  \<open>completion\<close> the \<^verbatim>\<open>choices[0]?.message?.content\<close> of the language model.
  The other two fields of the body are taken as the component sends them, so that
  building the prompt does not throw. \<^verbatim>\<open>toLowerCase\<close> on a value that is not a
  string is a \<^verbatim>\<open>TypeError\<close>.
\<close>

definition judgeSpeech_try ::
  "(string \<Rightarrow> llm_result option) \<Rightarrow> jsval outcome \<Rightarrow> string option outcome
     \<Rightarrow> js_error + response" where
  "judgeSpeech_try parse body completion =
     (case body of
        Threw \<Rightarrow> Inl SyntaxError
      | Returned speech \<Rightarrow>
         (case speech of
            JStr sp \<Rightarrow>
              if sp = [] then Inr (JsonError 400 ''Missing or invalid 'speech' field'')
              else
               (case completion of
                  Threw \<Rightarrow> Inl UpstreamError
                | Returned raw \<Rightarrow>
                    let reply = (case raw of None \<Rightarrow> [] | Some t \<Rightarrow> trim t);
                        result = (case jsonMatch reply of
                                    None \<Rightarrow> defaultResult
                                  | Some j \<Rightarrow>
                                     (case parse j of None \<Rightarrow> defaultResult | Some r \<Rightarrow> r));
                        reason' = (if truthy (reason result) then reason result else JStr [])
                    in if truthy (interrupt result) \<and> truthy (message result)
                       then
                        (case message result of
                           JStr m \<Rightarrow>
                             Inr (Json200 (interrupt result = JBool True) reason'
                                   (JStr (if \<not> startsWith (toLowerCase m) ''sorry to interrupt''
                                          then ''Sorry to interrupt, but '' @ m else m)))
                         | _ \<Rightarrow> Inl TypeError)
                       else Inr (Json200 (interrupt result = JBool True) reason'
                                  (message result)))
          | _ \<Rightarrow> Inr (JsonError 400 ''Missing or invalid 'speech' field'')))"

text \<open>The handler \<^verbatim>\<open>POST\<close> of the route: the check of the key, the \<^verbatim>\<open>try\<close> block,
  and the \<^verbatim>\<open>catch\<close>.\<close>

definition POST_judge_speech ::
  "(string \<Rightarrow> llm_result option) \<Rightarrow> string option \<Rightarrow> jsval outcome
     \<Rightarrow> string option outcome \<Rightarrow> response" where
  "POST_judge_speech parse groqApiKey body completion =
     (if \<not> known groqApiKey then JsonError 500 ''GROQ_API_KEY not configured''
      else case judgeSpeech_try parse body completion of
             Inl e \<Rightarrow> JsonError 500 ''Failed to analyze speech''
           | Inr r \<Rightarrow> r)"

section \<open>Observations and scenarios\<close>

text \<open>The requests to the judge in a trace, in the order they were sent: the time and
  the abort controller of each.\<close>

fun judgeCalls :: "(int \<times> action) list \<Rightarrow> (int \<times> nat) list" where
  "judgeCalls [] = []"
| "judgeCalls ((t, FetchJudge c speech h d) # tr) = (t, c) # judgeCalls tr"
| "judgeCalls (x # tr) = judgeCalls tr"

text \<open>What the runs of the component keep true of the abort controllers: they are
  numbered in the order of the requests, all but the stored one are aborted, no request
  is later than \<open>lastJudgeTimeRef\<close>, and two requests are at least 400 ms apart.\<close>

definition judgeInv :: "evi \<Rightarrow> bool" where
  "judgeInv s =
     (map snd (judgeCalls (trace s)) = [0..<nextController s]
      \<and> (case judgeAbortControllerRef s of
            None \<Rightarrow> nextController s = 0 \<and> aborted s = []
          | Some c \<Rightarrow> Suc c = nextController s \<and> set (aborted s) = {..<c})
      \<and> (\<forall>t \<in> set (map fst (judgeCalls (trace s))). t \<le> lastJudgeTimeRef s)
      \<and> sorted_wrt (\<lambda>a b. a + 400 \<le> b) (map fst (judgeCalls (trace s))))"

definition judgeView ::
    "evi \<Rightarrow> (int \<times> nat) list \<times> nat \<times> nat option \<times> nat list \<times> int" where
  "judgeView s =
     (judgeCalls (trace s), nextController s, judgeAbortControllerRef s, aborted s,
      lastJudgeTimeRef s)"

text \<open>
  A session in which the judge interrupts: the chat id arrives, the user starts a turn,
  speaks for two seconds, the request to the judge is sent, and 300 ms later the judge
  answers with an interruption.
\<close>

definition interruptedSession :: "event list" where
  "interruptedSession =
     [Hume 0 (ChatMetadata (Some ''chat-1'')) False,
      Hume 100 (UserMessage ''um'' True) False,
      Hume 2000 (UserMessage ''um so I was like you know um uh well'' True) False,
      JudgeSettled 300 0
        (JudgeJson True (Some ''Sorry to interrupt, but what is the main point?''))]"

text \<open>The same session after the injection, the resume and the unmute: the cooldown
  is running.\<close>

definition coolingSession :: "event list" where
  "coolingSession = interruptedSession @ [Fire, InjectSettled 80 InjectOk, Fire, Fire]"

text \<open>A session in which the user asks for a pause and the timer of the pause has
  opened the microphone again.\<close>

definition pausedSession :: "event list" where
  "pausedSession = [Hume 100 (UserMessage ''hold on a second'' False) False, Fire]"

text \<open>Whether the microphone is muted after the calls of a trace: the last of the calls
  \<^verbatim>\<open>mute()\<close> and \<^verbatim>\<open>unmute()\<close> decides, and before the first of them it is
  open.\<close>

definition micMuted :: "(int \<times> action) list \<Rightarrow> bool" where
  "micMuted tr =
     foldl (\<lambda>muted (t, a). if a = Mute then True else if a = Unmute then False else muted)
       False tr"

text \<open>What the runs of the component keep true of the microphone: while an
  interruption is in progress it is muted.\<close>

definition micInv :: "evi \<Rightarrow> bool" where
  "micInv s = (isInterruptingRef s \<longrightarrow> micMuted (trace s))"

text \<open>A session in which two requests to the judge are sent, 400 ms apart.\<close>

definition twoRequestsSession :: "event list" where
  "twoRequestsSession =
     [Hume 100 (UserMessage ''um'' True) False,
      Hume 2000 (UserMessage ''um so I was like you know um uh well'' True) False,
      Hume 400 (UserMessage ''um so I was like you know um uh well I think'' True) False]"

text \<open>
  Three replies of the language model, and \<^verbatim>\<open>JSON.parse\<close> on them: an interruption
  whose message starts in lower case, one whose message is empty, and one whose message
  lacks the prefix. The examples parse nothing else.
\<close>

definition lowercaseReply :: string where
  \<open>lowercaseReply =
     ''{"interrupt": true, "reason": "rambling", "message": "sorry to interrupt, but what is your main goal?"}''\<close>

definition emptyMessageReply :: string where
  \<open>emptyMessageReply = ''{"interrupt": true, "reason": "rambling", "message": ""}''\<close>

definition unprefixedReply :: string where
  \<open>unprefixedReply =
     ''{"interrupt": true, "reason": "rambling", "message": "What is the main point?"}''\<close>

definition parseReplies :: "string \<Rightarrow> llm_result option" where
  "parseReplies j =
     (if j = lowercaseReply
      then Some \<lparr>interrupt = JBool True, reason = JStr ''rambling'',
                 message = JStr ''sorry to interrupt, but what is your main goal?''\<rparr>
      else if j = emptyMessageReply
      then Some \<lparr>interrupt = JBool True, reason = JStr ''rambling'', message = JStr []\<rparr>
      else if j = unprefixedReply
      then Some \<lparr>interrupt = JBool True, reason = JStr ''rambling'',
                 message = JStr ''What is the main point?''\<rparr>
      else None)"

section \<open>Properties\<close>

subsection \<open>The judge client\<close>

text \<open>
  Claim C3. \<^verbatim>\<open>callLLMJudge\<close> sends its request exactly when all four preconditions
  hold: no interruption and no cooldown active, at least 8 words, at least 1.5 s of
  speaking time, at least 400 ms since the last request was sent. When one of them
  fails it returns with the state as it was; in particular for every utterance of fewer
  than 8 words.
\<close>

theorem callLLMJudge_preconditions:
  "(trace (callLLMJudge speech s) =
      trace s @ [(clock s, FetchJudge (nextController s) speech
                    (lastFour (conversationHistoryRef s)) (clock s - turnStartTimeRef s))]
    \<longleftrightarrow>
      \<not> interruptCooldownRef s \<and> \<not> isInterruptingRef s \<and> 8 \<le> wordCount speech \<and>
      1500 \<le> clock s - turnStartTimeRef s \<and> 400 \<le> clock s - lastJudgeTimeRef s)
   \<and> (\<not> (\<not> interruptCooldownRef s \<and> \<not> isInterruptingRef s \<and> 8 \<le> wordCount speech \<and>
          1500 \<le> clock s - turnStartTimeRef s \<and> 400 \<le> clock s - lastJudgeTimeRef s)
        \<longrightarrow> callLLMJudge speech s = s)
   \<and> (wordCount speech < 8 \<longrightarrow> callLLMJudge speech s = s)"
  by (auto simp: callLLMJudge_def Let_def emit_def MIN_WORDS_FOR_JUDGE_def
        MIN_SPEAKING_TIME_MS_def JUDGE_DEBOUNCE_MS_def split: option.splits)

theorem callLLMJudge_preconditions_witness:
  "wordCount ''one two three'' < 8 \<and>
   callLLMJudge ''one two three'' (initial 5000) = initial 5000 \<and>
   8 \<le> wordCount ''a b c d e f g h'' \<and>
   trace (callLLMJudge ''a b c d e f g h'' (initial 5000)) =
     trace (initial 5000) @
       [(clock (initial 5000), FetchJudge (nextController (initial 5000)) ''a b c d e f g h''
           (lastFour (conversationHistoryRef (initial 5000)))
           (clock (initial 5000) - turnStartTimeRef (initial 5000)))]"
proof -
  have short: "wordCount ''one two three'' < 8"
    by code_simp
  have long: "\<not> interruptCooldownRef (initial 5000) \<and> \<not> isInterruptingRef (initial 5000) \<and>
       8 \<le> wordCount ''a b c d e f g h'' \<and>
       1500 \<le> clock (initial 5000) - turnStartTimeRef (initial 5000) \<and>
       400 \<le> clock (initial 5000) - lastJudgeTimeRef (initial 5000)"
    by code_simp
  from callLLMJudge_preconditions [of "''one two three''" "initial 5000"] short
  have "callLLMJudge ''one two three'' (initial 5000) = initial 5000"
    by blast
  moreover from callLLMJudge_preconditions [of "''a b c d e f g h''" "initial 5000"] long
  have "trace (callLLMJudge ''a b c d e f g h'' (initial 5000)) =
     trace (initial 5000) @
       [(clock (initial 5000), FetchJudge (nextController (initial 5000)) ''a b c d e f g h''
           (lastFour (conversationHistoryRef (initial 5000)))
           (clock (initial 5000) - turnStartTimeRef (initial 5000)))]"
    by blast
  ultimately show ?thesis
    using short long by blast
qed

text \<open>
  Claim C7. A reply of the judge with \<^verbatim>\<open>interrupt\<close> true and a message that is
  missing or empty changes nothing, and before the chat id is known neither a reply of
  the judge nor \<^verbatim>\<open>triggerInterrupt\<close> itself changes anything: no call is made, no
  timer set, nothing written to the console.
\<close>

theorem interrupt_dropped_without_message_or_chatId:
  "judgeSettled c (JudgeJson True None) s = s
   \<and> judgeSettled c (JudgeJson True (Some [])) s = s
   \<and> (\<not> known (chatIdRef s) \<longrightarrow>
        triggerInterrupt msg s = s \<and> judgeSettled c (JudgeJson b m) s = s)"
  by (simp add: judgeSettled_def triggerInterrupt_def)

theorem interrupt_dropped_without_message_or_chatId_witness:
  "\<not> known (chatIdRef (initial 0))
   \<and> triggerInterrupt ''Sorry to interrupt, but is this the main goal?'' (initial 0) = initial 0
   \<and> judgeSettled 0 (JudgeJson True (Some ''Sorry to interrupt, but is this the main goal?''))
        (initial 0) = initial 0
   \<and> judgeSettled 0 (JudgeJson True None) (initial 0) = initial 0"
proof -
  have unknown: "\<not> known (chatIdRef (initial 0))"
    by (simp add: initial_def)
  with interrupt_dropped_without_message_or_chatId
         [of 0 "initial 0" "''Sorry to interrupt, but is this the main goal?''" True
            "Some ''Sorry to interrupt, but is this the main goal?''"]
  show ?thesis
    by blast
qed

subsection \<open>The interrupt sequence\<close>

lemmas interrupt_defs =
  triggerInterrupt_def triggerInterrupt_afterSettle_def triggerInterrupt_afterFetch_def
  injectSettled_def judgeSettled_def emit_def warn_def setTimeout_def advance_def

lemma afterFetch_history:
  "conversationHistoryRef (triggerInterrupt_afterFetch outcome msg s) =
     conversationHistoryRef s @ [(Assistant, msg)]"
  by (cases outcome) (simp_all add: interrupt_defs)

lemma afterFetch_conversation:
  "conversation (triggerInterrupt_afterFetch outcome msg s) =
     conversation s @ [\<lparr>role = Assistant, content = msg, timestamp = clock s,
                         hidden = False, isInterrupt = True\<rparr>]"
  by (cases outcome) (simp_all add: interrupt_defs)

lemma afterFetch_only_console:
  "triggerInterrupt_afterFetch outcome msg s =
     (triggerInterrupt_afterFetch InjectOk msg s)
       \<lparr>console := console (triggerInterrupt_afterFetch outcome msg s)\<rparr>"
  by (cases outcome) (simp_all add: interrupt_defs)

lemma afterFetch_rest:
  assumes "timers s = []"
  shows "trace (run [Fire, Fire, Fire] (triggerInterrupt_afterFetch outcome msg s)) =
           trace s @ [(clock s + 100, ResumeAssistant), (clock s + 4000, Unmute)]"
    and "clock (run [Fire, Fire, Fire] (triggerInterrupt_afterFetch outcome msg s)) =
           clock s + 12000"
    and "\<not> interruptCooldownRef (run [Fire, Fire, Fire] (triggerInterrupt_afterFetch outcome msg s))"
    and "\<not> isInterruptingRef (run [Fire, Fire, Fire] (triggerInterrupt_afterFetch outcome msg s))"
  using assms by (cases outcome; simp add: run_def interrupt_defs)+

lemma injectSettled_appends:
  assumes "injecting s = msg # rest"
  shows "conversationHistoryRef (step (InjectSettled dt outcome) s) =
           conversationHistoryRef s @ [(Assistant, msg)]"
    and "conversation (step (InjectSettled dt outcome) s) =
           conversation s @ [\<lparr>role = Assistant, content = msg, timestamp = clock s + int dt,
                               hidden = False, isInterrupt = True\<rparr>]"
  using assms
  by (simp_all add: injectSettled_def advance_def afterFetch_history afterFetch_conversation)

text \<open>
  Claim C6. However the request to \<^verbatim>\<open>/api/send-assistant-input\<close> ends (ok, a status
  that is not ok, or an exception), the message is appended to the history and, not
  hidden, to the transcript; the state after a failure differs from the state after a
  success in the console only; and the two timers set afterwards run the rest of the
  sequence: resume after 100 ms, unmute after 4000 ms, the cooldown cleared 8000 ms
  later. The last part is the same for the event of the loop in which the request of
  the waiting invocation ends.
\<close>

theorem injection_failure_keeps_sequence:
  "conversationHistoryRef (triggerInterrupt_afterFetch outcome msg s) =
     conversationHistoryRef s @ [(Assistant, msg)]
   \<and> conversation (triggerInterrupt_afterFetch outcome msg s) =
       conversation s @ [\<lparr>role = Assistant, content = msg, timestamp = clock s,
                           hidden = False, isInterrupt = True\<rparr>]
   \<and> triggerInterrupt_afterFetch outcome msg s =
       (triggerInterrupt_afterFetch InjectOk msg s)
         \<lparr>console := console (triggerInterrupt_afterFetch outcome msg s)\<rparr>
   \<and> (timers s = [] \<longrightarrow>
        trace (run [Fire, Fire, Fire] (triggerInterrupt_afterFetch outcome msg s)) =
          trace s @ [(clock s + 100, ResumeAssistant), (clock s + 4000, Unmute)]
        \<and> clock (run [Fire, Fire, Fire] (triggerInterrupt_afterFetch outcome msg s)) =
            clock s + 12000
        \<and> \<not> interruptCooldownRef
              (run [Fire, Fire, Fire] (triggerInterrupt_afterFetch outcome msg s))
        \<and> \<not> isInterruptingRef
              (run [Fire, Fire, Fire] (triggerInterrupt_afterFetch outcome msg s)))
   \<and> (injecting s = msg # rest \<longrightarrow>
        conversationHistoryRef (step (InjectSettled dt outcome) s) =
          conversationHistoryRef s @ [(Assistant, msg)]
        \<and> conversation (step (InjectSettled dt outcome) s) =
            conversation s @ [\<lparr>role = Assistant, content = msg, timestamp = clock s + int dt,
                                hidden = False, isInterrupt = True\<rparr>])"
  using afterFetch_history [of outcome msg s] afterFetch_conversation [of outcome msg s]
    afterFetch_only_console [of outcome msg s] afterFetch_rest [of s outcome msg]
    injectSettled_appends [of s msg rest dt outcome]
  by blast

theorem injection_failure_keeps_sequence_witness:
  "timers (initial 1000) = []
   \<and> conversationHistoryRef (triggerInterrupt_afterFetch InjectThrew ''Sorry to interrupt''
        (initial 1000)) = [(Assistant, ''Sorry to interrupt'')]
   \<and> trace (run [Fire, Fire, Fire]
        (triggerInterrupt_afterFetch InjectThrew ''Sorry to interrupt'' (initial 1000))) =
       [(1100, ResumeAssistant), (5000, Unmute)]
   \<and> clock (run [Fire, Fire, Fire]
        (triggerInterrupt_afterFetch InjectThrew ''Sorry to interrupt'' (initial 1000))) = 13000"
  using injection_failure_keeps_sequence [of InjectThrew "''Sorry to interrupt''" "initial 1000"]
  by (simp add: initial_def)

text \<open>
  Claim C2, as the code has it. A verdict with \<^verbatim>\<open>interrupt\<close> true and a message,
  accepted while the chat id is known, no interruption is in progress and nothing else
  is pending, gives exactly: mute and pause at once, in this order; the injection 200 ms
  later; then, counted from the moment the injection request has ended (\<open>L\<close> ms after
  it was sent, with any outcome), resume after 100 ms and unmute after 4000 ms; and the
  cooldown is cleared 8000 ms after the unmute. From entering the sequence to the end
  of the cooldown it is therefore 12200 ms and the duration of the request.
\<close>

theorem interrupt_timeline:
  assumes "known (chatIdRef s)" and "\<not> isInterruptingRef s" and "timers s = []"
    and "injecting s = []" and "c \<notin> set (aborted s)" and "msg \<noteq> []"
  shows
    "trace (run [JudgeSettled 0 c (JudgeJson True (Some msg)), Fire,
                 InjectSettled L outcome, Fire, Fire, Fire] s) =
       trace s @ [(clock s, Mute), (clock s, PauseAssistant),
                  (clock s + 200, FetchSendAssistantInput (chatIdRef s) msg),
                  (clock s + 200 + int L + 100, ResumeAssistant),
                  (clock s + 200 + int L + 4000, Unmute)]
     \<and> clock (run [JudgeSettled 0 c (JudgeJson True (Some msg)), Fire,
                    InjectSettled L outcome, Fire, Fire] s) = clock s + 200 + int L + 4000
     \<and> interruptCooldownRef (run [JudgeSettled 0 c (JudgeJson True (Some msg)), Fire,
                    InjectSettled L outcome, Fire, Fire] s)
     \<and> \<not> isInterruptingRef (run [JudgeSettled 0 c (JudgeJson True (Some msg)), Fire,
                    InjectSettled L outcome, Fire, Fire] s)
     \<and> clock (run [JudgeSettled 0 c (JudgeJson True (Some msg)), Fire,
                    InjectSettled L outcome, Fire, Fire, Fire] s) =
         clock s + 200 + int L + 4000 + 8000
     \<and> \<not> interruptCooldownRef (run [JudgeSettled 0 c (JudgeJson True (Some msg)), Fire,
                    InjectSettled L outcome, Fire, Fire, Fire] s)"
  using assms by (cases outcome; simp add: run_def interrupt_defs)

theorem interrupt_timeline_witness:
  "known (chatIdRef ((initial 1000)\<lparr>chatIdRef := Some ''chat-1''\<rparr>))
   \<and> trace (run [JudgeSettled 0 0 (JudgeJson True (Some ''Sorry to interrupt'')), Fire,
                 InjectSettled 50 (InjectStatus 500), Fire, Fire, Fire]
        ((initial 1000)\<lparr>chatIdRef := Some ''chat-1''\<rparr>)) =
       [(1000, Mute), (1000, PauseAssistant),
        (1200, FetchSendAssistantInput (Some ''chat-1'') ''Sorry to interrupt''),
        (1350, ResumeAssistant), (5250, Unmute)]
   \<and> clock (run [JudgeSettled 0 0 (JudgeJson True (Some ''Sorry to interrupt'')), Fire,
                 InjectSettled 50 (InjectStatus 500), Fire, Fire, Fire]
        ((initial 1000)\<lparr>chatIdRef := Some ''chat-1''\<rparr>)) = 13250"
  using interrupt_timeline [of "(initial 1000)\<lparr>chatIdRef := Some ''chat-1''\<rparr>" 0
      "''Sorry to interrupt''" 50 "InjectStatus 500"]
  by (simp add: initial_def)

text \<open>
  The claim as the specification states it fails: with a request that takes no time at
  all, the sequence entered at 1000 resumes at 1300, unmutes at 5200, which is 3900 ms
  after the resume, and clears the cooldown at 13200, which is 12200 ms and not 12000 ms
  after entering.
\<close>

theorem interrupt_cooldown_after_12s_counterexample:
  "trace (run [JudgeSettled 0 0
                 (JudgeJson True (Some ''Sorry to interrupt, but is this the main goal?'')),
               Fire, InjectSettled 0 InjectOk, Fire, Fire, Fire]
        ((initial 1000)\<lparr>chatIdRef := Some ''chat-1''\<rparr>)) =
     [(1000, Mute), (1000, PauseAssistant),
      (1200, FetchSendAssistantInput (Some ''chat-1'')
               ''Sorry to interrupt, but is this the main goal?''),
      (1300, ResumeAssistant), (5200, Unmute)]
   \<and> interruptCooldownRef
       (run [JudgeSettled 0 0
                 (JudgeJson True (Some ''Sorry to interrupt, but is this the main goal?'')),
             Fire, InjectSettled 0 InjectOk, Fire, Fire]
          ((initial 1000)\<lparr>chatIdRef := Some ''chat-1''\<rparr>))
   \<and> \<not> interruptCooldownRef
       (run [JudgeSettled 0 0
                 (JudgeJson True (Some ''Sorry to interrupt, but is this the main goal?'')),
             Fire, InjectSettled 0 InjectOk, Fire, Fire, Fire]
          ((initial 1000)\<lparr>chatIdRef := Some ''chat-1''\<rparr>))
   \<and> clock
       (run [JudgeSettled 0 0
                 (JudgeJson True (Some ''Sorry to interrupt, but is this the main goal?'')),
             Fire, InjectSettled 0 InjectOk, Fire, Fire, Fire]
          ((initial 1000)\<lparr>chatIdRef := Some ''chat-1''\<rparr>)) = 13200
   \<and> (13200 :: int) \<noteq> 1000 + 12000"
  by code_simp

subsection \<open>The history of user turns\<close>

lemma detectKeywords_history:
  "conversationHistoryRef (detectKeywords c s) = conversationHistoryRef s"
  by (simp add: detectKeywords_def triggerPause_def clearTimeout_def emit_def setTimeout_def
      Let_def split: option.split)

lemma callLLMJudge_history:
  "conversationHistoryRef (callLLMJudge c s) = conversationHistoryRef s"
  by (simp add: callLLMJudge_def emit_def Let_def split: option.split)

lemma resumeEffect_history:
  "conversationHistoryRef (resumeEffect p m msg s) = conversationHistoryRef s"
  by (simp add: resumeEffect_def handleResume_def clearTimeout_def emit_def Let_def
      split: option.split hume_message.split)

lemma userMessage_history:
  "conversationHistoryRef (userMessage c interim s) =
     (if \<not> interim \<and> c \<noteq> [] then conversationHistoryRef s @ [(User, c)]
      else conversationHistoryRef s)"
  by (simp add: userMessage_def Let_def detectKeywords_history callLLMJudge_history)

lemma step_user_history:
  "conversationHistoryRef (step (Hume d (UserMessage c interim) m) s) =
     (if \<not> interim \<and> c \<noteq> [] then conversationHistoryRef s @ [(User, c)]
      else conversationHistoryRef s)"
  by (simp add: resumeEffect_history userMessage_history advance_def)

text \<open>
  Claim C8, as the code has it. A run of the effects on an interim user message never
  appends to the history. One run on an interim message followed by one run on the
  final message of the turn appends exactly one entry, with the content of the final
  message, when that content is not empty; a final message with empty content appends
  nothing.
\<close>

theorem user_turn_history:
  "conversationHistoryRef (step (Hume d1 (UserMessage c1 True) m1) s) = conversationHistoryRef s
   \<and> conversationHistoryRef
        (run [Hume d1 (UserMessage c1 True) m1, Hume d2 (UserMessage c2 False) m2] s) =
       (if c2 = [] then conversationHistoryRef s else conversationHistoryRef s @ [(User, c2)])"
  unfolding run_def foldl.simps
  by (simp only: step_user_history) simp

theorem user_turn_history_witness:
  "conversationHistoryRef
     (run [Hume 100 (UserMessage ''hello th'' True) False,
           Hume 500 (UserMessage ''hello there'' False) False] (initial 1000)) =
   [(User, ''hello there'')]"
  using user_turn_history [of 100 "''hello th''" False "initial 1000" 500 "''hello there''" False]
  by (simp add: initial_def)

text \<open>The claim as the specification states it fails for a final message without
  content: the turn leaves no entry in the history.\<close>

theorem user_turn_history_counterexample:
  "conversationHistoryRef
     (run [Hume 100 (UserMessage ''hello'' True) False,
           Hume 500 (UserMessage [] False) False] (initial 1000)) =
   conversationHistoryRef (initial 1000)"
  by code_simp

text \<open>A second run of the effect on the same final message appends its entry a
  second time.\<close>

lemma second_run_appends_again:
  "c \<noteq> [] \<Longrightarrow>
   conversationHistoryRef
     (run [Hume d (UserMessage c False) m1, Hume 0 (UserMessage c False) m2] s) =
   conversationHistoryRef s @ [(User, c), (User, c)]"
  unfolding run_def foldl.simps
  by (simp only: step_user_history) simp

subsection \<open>Keywords during an interruption\<close>

lemma detectKeywords_interrupting:
  "isInterruptingRef s \<Longrightarrow>
     detectKeywords c s = s
     \<or> detectKeywords c s = emit (SendSessionSettings QUICK_CONTEXT) (s\<lparr>mode := Quick\<rparr>)
     \<or> detectKeywords c s = emit (SendSessionSettings DETAILED_CONTEXT) (s\<lparr>mode := Detailed\<rparr>)"
  by (simp add: detectKeywords_def triggerPause_def Let_def)

lemma userMessage_while_interrupting:
  assumes "isInterruptingRef s"
  shows "isPaused (userMessage c interim s) = isPaused s
    \<and> timers (userMessage c interim s) = timers s
    \<and> micUnmuteTimeoutRef (userMessage c interim s) = micUnmuteTimeoutRef s
    \<and> isInterruptingRef (userMessage c interim s)
    \<and> clock (userMessage c interim s) = clock s
    \<and> (trace (userMessage c interim s) = trace s
       \<or> trace (userMessage c interim s) =
            trace s @ [(clock s, SendSessionSettings QUICK_CONTEXT)]
       \<or> trace (userMessage c interim s) =
            trace s @ [(clock s, SendSessionSettings DETAILED_CONTEXT)])"
proof -
  define s2 where "s2 = (if interim \<and> turnStartTimeRef s = 0
                then s\<lparr>turnStartTimeRef := clock s\<rparr> else s)
       \<lparr>conversation := upsertUser c (clock s) (conversation s)\<rparr>"
  have i2: "isInterruptingRef s2" and f2: "isPaused s2 = isPaused s" "timers s2 = timers s"
    "micUnmuteTimeoutRef s2 = micUnmuteTimeoutRef s" "clock s2 = clock s" "trace s2 = trace s"
    using assms by (simp_all add: s2_def)
  define k where "k = detectKeywords c s2"
  have um: "userMessage c interim s =
     (let s4 = (if interim \<and> \<not> isInterruptingRef k then callLLMJudge c k else k)
      in if \<not> interim \<and> c \<noteq> []
         then s4\<lparr>conversationHistoryRef := conversationHistoryRef s4 @ [(User, c)],
                 turnStartTimeRef := 0\<rparr>
         else s4)"
    by (simp add: userMessage_def Let_def k_def s2_def)
  from detectKeywords_interrupting [OF i2, of c]
  consider "k = s2"
    | "k = emit (SendSessionSettings QUICK_CONTEXT) (s2\<lparr>mode := Quick\<rparr>)"
    | "k = emit (SendSessionSettings DETAILED_CONTEXT) (s2\<lparr>mode := Detailed\<rparr>)"
    unfolding k_def by blast
  then show ?thesis
  proof cases
    case 1
    then show ?thesis using i2 f2 by (simp add: um Let_def)
  next
    case 2
    then show ?thesis using i2 f2 by (simp add: um Let_def emit_def)
  next
    case 3
    then show ?thesis using i2 f2 by (simp add: um Let_def emit_def)
  qed
qed

text \<open>
  Claim C1, as the code has it. While \<^verbatim>\<open>isInterrupting\<close> is set, a user message
  never pauses or resumes: \<^verbatim>\<open>isPaused\<close>, the timers and the stored timer stay as they
  are, and the only call that the message can cause is the session settings of a switch
  of mode.
\<close>

theorem no_pause_while_interrupting:
  assumes "isInterruptingRef s"
  shows "isPaused (step (Hume dt (UserMessage c interim) muted) s) = isPaused s
    \<and> timers (step (Hume dt (UserMessage c interim) muted) s) = timers s
    \<and> micUnmuteTimeoutRef (step (Hume dt (UserMessage c interim) muted) s) = micUnmuteTimeoutRef s
    \<and> (trace (step (Hume dt (UserMessage c interim) muted) s) = trace s
       \<or> trace (step (Hume dt (UserMessage c interim) muted) s) =
            trace s @ [(clock s + int dt, SendSessionSettings QUICK_CONTEXT)]
       \<or> trace (step (Hume dt (UserMessage c interim) muted) s) =
            trace s @ [(clock s + int dt, SendSessionSettings DETAILED_CONTEXT)])"
proof -
  have a: "isInterruptingRef (advance dt s)" using assms by (simp add: advance_def)
  have r: "resumeEffect p muted (UserMessage c interim) x = x" if "isInterruptingRef x" for p x
    using that by (simp add: resumeEffect_def handleResume_def)
  from userMessage_while_interrupting [OF a, of c interim]
  show ?thesis
    by (simp add: r Let_def) (simp add: advance_def)
qed

theorem no_pause_while_interrupting_witness:
  "isInterruptingRef (run interruptedSession (initial 1000))
   \<and> isPaused (step (Hume 50 (UserMessage ''wait a second'' False) True)
                 (run interruptedSession (initial 1000))) =
       isPaused (run interruptedSession (initial 1000))
   \<and> timers (step (Hume 50 (UserMessage ''wait a second'' False) True)
                 (run interruptedSession (initial 1000))) =
       timers (run interruptedSession (initial 1000))"
proof -
  have h: "isInterruptingRef (run interruptedSession (initial 1000))"
    by code_simp
  from no_pause_while_interrupting [OF h, of 50 "''wait a second''" False True] h
  show ?thesis
    by blast
qed

text \<open>
  The claim as the specification states it fails twice. While the interruption is in
  progress, a user message with a brevity phrase switches the mode and sends the
  session settings. And during the cooldown, when \<^verbatim>\<open>isInterrupting\<close> is cleared
  again, a user message with a pause phrase pauses: both mutes are called and
  \<^verbatim>\<open>isPaused\<close> is set.
\<close>

theorem actions_during_interruption_counterexample:
  "isInterruptingRef (run interruptedSession (initial 1000))
   \<and> interruptCooldownRef (run interruptedSession (initial 1000))
   \<and> mode (run interruptedSession (initial 1000)) = Normal
   \<and> mode (run (interruptedSession @ [Hume 50 (UserMessage ''can you make it quick'' False) True])
             (initial 1000)) = Quick
   \<and> trace (run (interruptedSession @ [Hume 50 (UserMessage ''can you make it quick'' False) True])
              (initial 1000)) =
       trace (run interruptedSession (initial 1000)) @
         [(3450, SendSessionSettings QUICK_CONTEXT)]
   \<and> interruptCooldownRef (run coolingSession (initial 1000))
   \<and> \<not> isInterruptingRef (run coolingSession (initial 1000))
   \<and> \<not> isPaused (run coolingSession (initial 1000))
   \<and> isPaused (run (coolingSession @ [Hume 1000 (UserMessage ''wait'' True) False])
                 (initial 1000))
   \<and> trace (run (coolingSession @ [Hume 1000 (UserMessage ''wait'' True) False])
              (initial 1000)) =
       trace (run coolingSession (initial 1000)) @ [(8680, MuteAudio), (8680, Mute)]"
  by code_simp

subsection \<open>Pause and resume\<close>

lemma triggerPause_enters:
  assumes "\<not> isInterruptingRef s"
  shows "trace (triggerPause s) = trace s @ [(clock s, MuteAudio), (clock s, Mute)]"
    and "isPaused (triggerPause s)"
    and "micUnmuteTimeoutRef (triggerPause s) = Some (nextTimer s)"
    and "timers (triggerPause s) =
           (case micUnmuteTimeoutRef s of
              None \<Rightarrow> timers s
            | Some h \<Rightarrow> filter (\<lambda>t. fst t \<noteq> h) (timers s))
           @ [(nextTimer s, clock s + 2000, MicReopenCb)]"
    and "clock (triggerPause s) = clock s"
    and "\<not> isInterruptingRef (triggerPause s)"
  using assms
  by (simp_all add: triggerPause_def emit_def setTimeout_def clearTimeout_def Let_def
        split: option.split)

lemma triggerPause_timer_fires:
  assumes "\<not> isInterruptingRef s" and "timers s = []"
  shows "trace (run [Fire] (triggerPause s)) =
           trace s @ [(clock s, MuteAudio), (clock s, Mute), (clock s + 2000, Unmute)]"
    and "isPaused (run [Fire] (triggerPause s))"
proof -
  have t: "timers (triggerPause s) = [(nextTimer s, clock s + 2000, MicReopenCb)]"
    using triggerPause_enters(4) [OF assms(1)] assms(2) by (simp split: option.split)
  show "trace (run [Fire] (triggerPause s)) =
           trace s @ [(clock s, MuteAudio), (clock s, Mute), (clock s + 2000, Unmute)]"
    and "isPaused (run [Fire] (triggerPause s))"
    using triggerPause_enters [OF assms(1)]
    by (simp_all add: run_def t emit_def)
qed

lemma handleResume_resumes:
  assumes "\<not> isInterruptingRef s"
  shows "\<not> isPaused (handleResume s)"
    and "trace (handleResume s) = trace s @ [(clock s, UnmuteAudio), (clock s, Unmute)]"
    and "timers (handleResume s) =
           (case micUnmuteTimeoutRef s of
              None \<Rightarrow> timers s
            | Some h \<Rightarrow> filter (\<lambda>t. fst t \<noteq> h) (timers s))"
  using assms
  by (simp_all add: handleResume_def emit_def clearTimeout_def Let_def split: option.split)

lemma micMuted_snoc:
  "micMuted (tr @ [(t, a)]) = (if a = Mute then True else if a = Unmute then False else micMuted tr)"
  by (simp add: micMuted_def)

lemma micInv_triggerInterrupt: "micInv s \<Longrightarrow> micInv (triggerInterrupt msg s)"
  by (simp add: micInv_def triggerInterrupt_def emit_def setTimeout_def micMuted_def)

lemma micInv_judgeSettled: "micInv s \<Longrightarrow> micInv (judgeSettled c reply s)"
  by (cases reply) (simp_all add: judgeSettled_def micInv_triggerInterrupt, simp add: micInv_def warn_def)

lemma micInv_injectSettled: "micInv s \<Longrightarrow> micInv (injectSettled outcome s)"
  by (cases "injecting s"; cases outcome)
     (simp_all add: injectSettled_def triggerInterrupt_afterFetch_def micInv_def warn_def
        setTimeout_def)

lemma micInv_fire: "micInv s \<Longrightarrow> micInv (fire cb s)"
  by (cases cb)
     (simp_all add: micInv_def triggerInterrupt_afterSettle_def emit_def setTimeout_def
        micMuted_snoc Let_def)

lemma micInv_triggerPause: "micInv s \<Longrightarrow> micInv (triggerPause s)"
  by (simp add: micInv_def triggerPause_def emit_def setTimeout_def clearTimeout_def
      Let_def split: option.split)

lemma micInv_handleResume: "micInv s \<Longrightarrow> micInv (handleResume s)"
  by (simp add: micInv_def handleResume_def emit_def clearTimeout_def
      Let_def split: option.split)

lemma micInv_resumeEffect: "micInv s \<Longrightarrow> micInv (resumeEffect p m msg s)"
  by (cases msg) (simp_all add: resumeEffect_def micInv_handleResume)

lemma micInv_detectKeywords: "micInv s \<Longrightarrow> micInv (detectKeywords c s)"
proof -
  assume inv: "micInv s"
  have "micInv (emit (SendSessionSettings tx) (s\<lparr>mode := m\<rparr>))" for tx m
    using inv by (simp add: micInv_def emit_def micMuted_snoc)
  then show ?thesis
    using inv by (simp add: detectKeywords_def Let_def micInv_triggerPause)
qed

lemma micInv_callLLMJudge: "micInv s \<Longrightarrow> micInv (callLLMJudge c s)"
  by (simp add: micInv_def callLLMJudge_def emit_def micMuted_snoc Let_def split: option.split)

lemma micInv_userMessage: "micInv s \<Longrightarrow> micInv (userMessage c i s)"
proof -
  assume inv: "micInv s"
  define s2 where "s2 = (if i \<and> turnStartTimeRef s = 0
                then s\<lparr>turnStartTimeRef := clock s\<rparr> else s)
       \<lparr>conversation := upsertUser c (clock s) (conversation s)\<rparr>"
  define s3 where "s3 = detectKeywords c s2"
  define s4 where "s4 = (if i \<and> \<not> isInterruptingRef s3 then callLLMJudge c s3 else s3)"
  have "micInv s2"
    using inv by (simp add: s2_def micInv_def)
  then have "micInv s3"
    unfolding s3_def by (rule micInv_detectKeywords)
  then have i4: "micInv s4"
    by (simp add: s4_def micInv_callLLMJudge)
  have um: "userMessage c i s =
      (if \<not> i \<and> c \<noteq> []
       then s4\<lparr>conversationHistoryRef := conversationHistoryRef s4 @ [(User, c)],
               turnStartTimeRef := 0\<rparr>
       else s4)"
    by (simp add: userMessage_def Let_def s4_def s3_def s2_def)
  show ?thesis
    using i4 by (simp add: um micInv_def)
qed

lemma micInv_processMessage: "micInv s \<Longrightarrow> micInv (processMessage msg s)"
  by (cases msg)
     (simp_all add: micInv_userMessage,
      simp_all add: micInv_def emit_def setTimeout_def micMuted_snoc assistantMessage_def Let_def)

lemma micInv_step:
  assumes inv: "micInv s"
  shows "micInv (step e s)"
proof (cases e)
  case Fire
  show ?thesis
  proof (cases "earliest (timers s)")
    case None
    then show ?thesis using inv Fire by simp
  next
    case (Some tm)
    obtain h due cb where tm: "tm = (h, due, cb)" by (cases tm) auto
    have "micInv (s\<lparr>clock := max (clock s) due,
                    timers := filter (\<lambda>t. fst t \<noteq> h) (timers s)\<rparr>)"
      using inv by (simp add: micInv_def)
    then have "micInv (fire cb (s\<lparr>clock := max (clock s) due,
                    timers := filter (\<lambda>t. fst t \<noteq> h) (timers s)\<rparr>))"
      by (rule micInv_fire)
    then show ?thesis
      using Fire Some tm by simp
  qed
next
  case (Hume dt msg muted)
  have "micInv (advance dt s)" using inv by (simp add: micInv_def advance_def)
  then have "micInv (processMessage msg (advance dt s))" by (rule micInv_processMessage)
  then have "micInv (resumeEffect (isPaused (advance dt s)) muted msg
                (processMessage msg (advance dt s)))"
    by (rule micInv_resumeEffect)
  then show ?thesis using Hume by (simp add: Let_def)
next
  case (JudgeSettled dt c reply)
  have "micInv (advance dt s)" using inv by (simp add: micInv_def advance_def)
  then have "micInv (judgeSettled c reply (advance dt s))" by (rule micInv_judgeSettled)
  then show ?thesis using JudgeSettled by simp
next
  case (InjectSettled dt outcome)
  have "micInv (advance dt s)" using inv by (simp add: micInv_def advance_def)
  then have "micInv (injectSettled outcome (advance dt s))" by (rule micInv_injectSettled)
  then show ?thesis using InjectSettled by simp
qed

lemma micInv_run: "micInv s \<Longrightarrow> micInv (run evs s)"
  unfolding run_def by (induction evs arbitrary: s) (simp_all add: micInv_step)

lemma micInv_initial: "micInv (initial t0)"
  by (simp add: micInv_def initial_def)

lemma open_mic_not_interrupting:
  "\<not> micMuted (trace (run evs (initial t0))) \<Longrightarrow> \<not> isInterruptingRef (run evs (initial t0))"
  using micInv_run [OF micInv_initial, of evs t0] by (auto simp: micInv_def)

lemma detectKeywords_paused:
  "isPaused s \<Longrightarrow>
     detectKeywords c s = s
     \<or> detectKeywords c s = emit (SendSessionSettings QUICK_CONTEXT) (s\<lparr>mode := Quick\<rparr>)
     \<or> detectKeywords c s = emit (SendSessionSettings DETAILED_CONTEXT) (s\<lparr>mode := Detailed\<rparr>)"
  by (simp add: detectKeywords_def Let_def)

lemma callLLMJudge_frame:
  "isPaused (callLLMJudge c s) = isPaused s"
  "isInterruptingRef (callLLMJudge c s) = isInterruptingRef s"
  "timers (callLLMJudge c s) = timers s"
  "micUnmuteTimeoutRef (callLLMJudge c s) = micUnmuteTimeoutRef s"
  "clock (callLLMJudge c s) = clock s"
  by (simp_all add: callLLMJudge_def emit_def Let_def split: option.split)

lemma userMessage_while_paused:
  assumes "isPaused s" and "\<not> isInterruptingRef s"
  shows "isPaused (userMessage c interim s)"
    and "\<not> isInterruptingRef (userMessage c interim s)"
    and "timers (userMessage c interim s) = timers s"
    and "micUnmuteTimeoutRef (userMessage c interim s) = micUnmuteTimeoutRef s"
    and "clock (userMessage c interim s) = clock s"
proof -
  define s2 where "s2 = (if interim \<and> turnStartTimeRef s = 0
                then s\<lparr>turnStartTimeRef := clock s\<rparr> else s)
       \<lparr>conversation := upsertUser c (clock s) (conversation s)\<rparr>"
  have p2: "isPaused s2" and f2: "\<not> isInterruptingRef s2" "timers s2 = timers s"
    "micUnmuteTimeoutRef s2 = micUnmuteTimeoutRef s" "clock s2 = clock s"
    using assms by (simp_all add: s2_def)
  define k where "k = detectKeywords c s2"
  have fk: "isPaused k \<and> \<not> isInterruptingRef k \<and> timers k = timers s
      \<and> micUnmuteTimeoutRef k = micUnmuteTimeoutRef s \<and> clock k = clock s"
    using detectKeywords_paused [OF p2, of c] p2 f2 unfolding k_def
    by (auto simp: emit_def)
  define s4 where "s4 = (if interim \<and> \<not> isInterruptingRef k then callLLMJudge c k else k)"
  have f4: "isPaused s4 \<and> \<not> isInterruptingRef s4 \<and> timers s4 = timers s
      \<and> micUnmuteTimeoutRef s4 = micUnmuteTimeoutRef s \<and> clock s4 = clock s"
    using fk by (simp add: s4_def callLLMJudge_frame)
  have um: "userMessage c interim s =
      (if \<not> interim \<and> c \<noteq> []
       then s4\<lparr>conversationHistoryRef := conversationHistoryRef s4 @ [(User, c)],
               turnStartTimeRef := 0\<rparr>
       else s4)"
    by (simp add: userMessage_def Let_def s4_def k_def s2_def)
  show "isPaused (userMessage c interim s)"
    and "\<not> isInterruptingRef (userMessage c interim s)"
    and "timers (userMessage c interim s) = timers s"
    and "micUnmuteTimeoutRef (userMessage c interim s) = micUnmuteTimeoutRef s"
    and "clock (userMessage c interim s) = clock s"
    using f4 by (simp_all add: um)
qed

lemma step_resumes:
  assumes "isPaused s" and "\<not> isInterruptingRef s" and "\<not> isPausePhrase c" and "3 < length c"
  shows "\<not> isPaused (step (Hume dt (UserMessage c interim) False) s)"
    and "timers (step (Hume dt (UserMessage c interim) False) s) =
           (case micUnmuteTimeoutRef s of
              None \<Rightarrow> timers s
            | Some h \<Rightarrow> filter (\<lambda>t. fst t \<noteq> h) (timers s))"
    and "trace (step (Hume dt (UserMessage c interim) False) s) =
           trace (processMessage (UserMessage c interim) (advance dt s)) @
             [(clock s + int dt, UnmuteAudio), (clock s + int dt, Unmute)]"
proof -
  define a where "a = advance dt s"
  define p where "p = userMessage c interim a"
  have fa: "isPaused a" "\<not> isInterruptingRef a" "timers a = timers s"
    "micUnmuteTimeoutRef a = micUnmuteTimeoutRef s" "clock a = clock s + int dt"
    using assms(1,2) by (simp_all add: a_def advance_def)
  have fp: "\<not> isInterruptingRef p" "timers p = timers s"
    "micUnmuteTimeoutRef p = micUnmuteTimeoutRef s" "clock p = clock s + int dt"
    using userMessage_while_paused [OF fa(1,2), of c interim] fa by (simp_all add: p_def)
  have "step (Hume dt (UserMessage c interim) False) s =
          resumeEffect (isPaused a) False (UserMessage c interim) p"
    by (simp add: Let_def a_def p_def)
  also have "\<dots> = handleResume p"
    using fa(1) assms(3,4) by (simp add: resumeEffect_def)
  finally have st: "step (Hume dt (UserMessage c interim) False) s = handleResume p" .
  have r1: "\<not> isPaused (handleResume p)"
    by (rule handleResume_resumes(1) [OF fp(1)])
  have r2: "trace (handleResume p) =
              trace p @ [(clock s + int dt, UnmuteAudio), (clock s + int dt, Unmute)]"
    using handleResume_resumes(2) [OF fp(1)] by (simp add: fp(4))
  have r3: "timers (handleResume p) =
           (case micUnmuteTimeoutRef s of
              None \<Rightarrow> timers s
            | Some h \<Rightarrow> filter (\<lambda>t. fst t \<noteq> h) (timers s))"
    using handleResume_resumes(3) [OF fp(1)] unfolding fp(2) fp(3) .
  have pm: "processMessage (UserMessage c interim) (advance dt s) = p"
    by (simp add: p_def a_def)
  show "\<not> isPaused (step (Hume dt (UserMessage c interim) False) s)"
    unfolding st by (rule r1)
  show "timers (step (Hume dt (UserMessage c interim) False) s) =
           (case micUnmuteTimeoutRef s of
              None \<Rightarrow> timers s
            | Some h \<Rightarrow> filter (\<lambda>t. fst t \<noteq> h) (timers s))"
    unfolding st by (rule r3)
  show "trace (step (Hume dt (UserMessage c interim) False) s) =
           trace (processMessage (UserMessage c interim) (advance dt s)) @
             [(clock s + int dt, UnmuteAudio), (clock s + int dt, Unmute)]"
    unfolding st pm by (rule r2)
qed

lemma micReopen_fires:
  assumes "earliest (timers x) = Some (h, due, MicReopenCb)"
  shows "isPaused (step Fire x) = isPaused x"
    and "trace (step Fire x) = trace x
         \<or> trace (step Fire x) = trace x @ [(max (clock x) due, Unmute)]"
  using assms by (simp_all add: emit_def)

text \<open>
  Claim C5. When no interruption is in progress, \<^verbatim>\<open>triggerPause\<close> mutes the agent
  audio and the microphone at once, sets \<^verbatim>\<open>isPaused\<close> and sets a timer for 2000 ms
  later. That timer, in whatever state it expires, calls nothing but \<^verbatim>\<open>unmute()\<close>
  of the microphone and leaves \<^verbatim>\<open>isPaused\<close> as it is. In every run of the
  component, while it is paused and the microphone is open, a user message, final or
  interim, that is not a pause phrase and is longer than 3 characters resumes:
  \<^verbatim>\<open>isPaused\<close> is cleared, the stored timer is cancelled, and the agent audio and
  the microphone are unmuted.
\<close>

theorem pause_and_resume:
  "(\<not> isInterruptingRef s \<longrightarrow>
      trace (triggerPause s) = trace s @ [(clock s, MuteAudio), (clock s, Mute)]
      \<and> isPaused (triggerPause s)
      \<and> timers (triggerPause s) =
          (case micUnmuteTimeoutRef s of
             None \<Rightarrow> timers s
           | Some h \<Rightarrow> filter (\<lambda>t. fst t \<noteq> h) (timers s))
          @ [(nextTimer s, clock s + 2000, MicReopenCb)]
      \<and> micUnmuteTimeoutRef (triggerPause s) = Some (nextTimer s))
   \<and> (\<not> isInterruptingRef s \<and> timers s = [] \<longrightarrow>
        trace (run [Fire] (triggerPause s)) =
          trace s @ [(clock s, MuteAudio), (clock s, Mute), (clock s + 2000, Unmute)]
        \<and> isPaused (run [Fire] (triggerPause s)))
   \<and> (earliest (timers x) = Some (h, due, MicReopenCb) \<longrightarrow>
        isPaused (step Fire x) = isPaused x
        \<and> (trace (step Fire x) = trace x
             \<or> trace (step Fire x) = trace x @ [(max (clock x) due, Unmute)]))
   \<and> (isPaused (run evs (initial t0)) \<and> \<not> micMuted (trace (run evs (initial t0)))
        \<and> \<not> isPausePhrase c \<and> 3 < length c \<longrightarrow>
        \<not> isPaused (step (Hume dt (UserMessage c interim) False) (run evs (initial t0)))
        \<and> timers (step (Hume dt (UserMessage c interim) False) (run evs (initial t0))) =
            (case micUnmuteTimeoutRef (run evs (initial t0)) of
               None \<Rightarrow> timers (run evs (initial t0))
             | Some h \<Rightarrow> filter (\<lambda>t. fst t \<noteq> h) (timers (run evs (initial t0))))
        \<and> trace (step (Hume dt (UserMessage c interim) False) (run evs (initial t0))) =
            trace (processMessage (UserMessage c interim) (advance dt (run evs (initial t0)))) @
              [(clock (run evs (initial t0)) + int dt, UnmuteAudio),
               (clock (run evs (initial t0)) + int dt, Unmute)]
        \<and> trace (resumeEffect (isPaused (run evs (initial t0))) False (UserMessage c interim)
                   (run evs (initial t0))) =
            trace (run evs (initial t0)) @
              [(clock (run evs (initial t0)), UnmuteAudio),
               (clock (run evs (initial t0)), Unmute)])"
proof -
  have d: "\<not> isPaused (step (Hume dt (UserMessage c interim) False) (run evs (initial t0)))
        \<and> timers (step (Hume dt (UserMessage c interim) False) (run evs (initial t0))) =
            (case micUnmuteTimeoutRef (run evs (initial t0)) of
               None \<Rightarrow> timers (run evs (initial t0))
             | Some h \<Rightarrow> filter (\<lambda>t. fst t \<noteq> h) (timers (run evs (initial t0))))
        \<and> trace (step (Hume dt (UserMessage c interim) False) (run evs (initial t0))) =
            trace (processMessage (UserMessage c interim) (advance dt (run evs (initial t0)))) @
              [(clock (run evs (initial t0)) + int dt, UnmuteAudio),
               (clock (run evs (initial t0)) + int dt, Unmute)]
        \<and> trace (resumeEffect (isPaused (run evs (initial t0))) False (UserMessage c interim)
                   (run evs (initial t0))) =
            trace (run evs (initial t0)) @
              [(clock (run evs (initial t0)), UnmuteAudio),
               (clock (run evs (initial t0)), Unmute)]"
    if p: "isPaused (run evs (initial t0))" and m: "\<not> micMuted (trace (run evs (initial t0)))"
      and c: "\<not> isPausePhrase c" "3 < length c"
  proof -
    have i: "\<not> isInterruptingRef (run evs (initial t0))"
      using m by (rule open_mic_not_interrupting)
    have "resumeEffect (isPaused (run evs (initial t0))) False (UserMessage c interim)
            (run evs (initial t0)) = handleResume (run evs (initial t0))"
      using p c by (simp add: resumeEffect_def)
    then show ?thesis
      using step_resumes [OF p i c, of dt interim] handleResume_resumes(2) [OF i]
      by simp
  qed
  have f: "isPaused (step Fire x) = isPaused x
        \<and> (trace (step Fire x) = trace x
             \<or> trace (step Fire x) = trace x @ [(max (clock x) due, Unmute)])"
    if "earliest (timers x) = Some (h, due, MicReopenCb)"
    using micReopen_fires [OF that] by blast
  show ?thesis
    using triggerPause_enters [of s] triggerPause_timer_fires [of s] f d
    by blast
qed

theorem pause_and_resume_witness:
  "\<not> isInterruptingRef (initial 1000) \<and> timers (initial 1000) = []
   \<and> trace (run [Fire] (triggerPause (initial 1000))) =
       trace (initial 1000) @
         [(clock (initial 1000), MuteAudio), (clock (initial 1000), Mute),
          (clock (initial 1000) + 2000, Unmute)]
   \<and> isPaused (run pausedSession (initial 1000))
   \<and> \<not> micMuted (trace (run pausedSession (initial 1000)))
   \<and> \<not> isPausePhrase ''okay I am ready'' \<and> 3 < length ''okay I am ready''
   \<and> \<not> isPaused (step (Hume 500 (UserMessage ''okay I am ready'' False) False)
                   (run pausedSession (initial 1000)))
   \<and> trace (step (Hume 500 (UserMessage ''okay I am ready'' False) False)
              (run pausedSession (initial 1000))) =
       [(1100, MuteAudio), (1100, Mute), (3100, Unmute), (3600, UnmuteAudio), (3600, Unmute)]
   \<and> timers (step (Hume 500 (UserMessage ''okay I am ready'' False) False)
               (run pausedSession (initial 1000))) = []"
proof -
  have a: "\<not> isInterruptingRef (initial 1000) \<and> timers (initial 1000) = []"
    by (simp add: initial_def)
  have b: "isPaused (run pausedSession (initial 1000))
           \<and> \<not> micMuted (trace (run pausedSession (initial 1000)))
           \<and> \<not> isPausePhrase ''okay I am ready'' \<and> 3 < length ''okay I am ready''"
    by code_simp
  have v: "trace (step (Hume 500 (UserMessage ''okay I am ready'' False) False)
              (run pausedSession (initial 1000))) =
       [(1100, MuteAudio), (1100, Mute), (3100, Unmute), (3600, UnmuteAudio), (3600, Unmute)]
   \<and> timers (step (Hume 500 (UserMessage ''okay I am ready'' False) False)
               (run pausedSession (initial 1000))) = []"
    by code_simp
  from pause_and_resume [where s = "initial 1000"] a
  have p: "trace (run [Fire] (triggerPause (initial 1000))) =
       trace (initial 1000) @ [(clock (initial 1000), MuteAudio), (clock (initial 1000), Mute),
                               (clock (initial 1000) + 2000, Unmute)]"
    by blast
  from pause_and_resume [where evs = pausedSession and ?t0.0 = 1000
         and c = "''okay I am ready''" and dt = 500 and interim = False] b
  have q: "\<not> isPaused (step (Hume 500 (UserMessage ''okay I am ready'' False) False)
                   (run pausedSession (initial 1000)))"
    by blast
  from a b v p q show ?thesis
    by blast
qed

subsection \<open>Cancelling the request to the judge\<close>

lemma judgeCalls_append: "judgeCalls (xs @ ys) = judgeCalls xs @ judgeCalls ys"
  by (induction xs rule: judgeCalls.induct) simp_all

lemma judgeInv_view: "judgeView s' = judgeView s \<Longrightarrow> judgeInv s \<Longrightarrow> judgeInv s'"
  by (cases "judgeAbortControllerRef s") (simp_all add: judgeView_def judgeInv_def)

lemma judgeView_fields:
  "trace s' = trace s \<Longrightarrow> nextController s' = nextController s \<Longrightarrow>
   judgeAbortControllerRef s' = judgeAbortControllerRef s \<Longrightarrow> aborted s' = aborted s \<Longrightarrow>
   lastJudgeTimeRef s' = lastJudgeTimeRef s \<Longrightarrow> judgeView s' = judgeView s"
  by (simp add: judgeView_def)

lemma judgeView_advance [simp]: "judgeView (advance dt s) = judgeView s"
  by (simp add: judgeView_def advance_def)

lemma judgeView_emit:
  "judgeCalls [(clock s, a)] = [] \<Longrightarrow> judgeView (emit a s) = judgeView s"
  by (simp add: judgeView_def emit_def judgeCalls_append)

lemma judgeView_warn [simp]: "judgeView (warn txt s) = judgeView s"
  by (simp add: judgeView_def warn_def)

lemma judgeView_setTimeout [simp]: "judgeView (snd (setTimeout cb d s)) = judgeView s"
  by (simp add: judgeView_def setTimeout_def)

lemma judgeView_clearTimeout [simp]: "judgeView (clearTimeout h s) = judgeView s"
  by (simp add: judgeView_def clearTimeout_def)

lemma judgeView_triggerInterrupt [simp]: "judgeView (triggerInterrupt msg s) = judgeView s"
  by (simp add: judgeView_def triggerInterrupt_def emit_def setTimeout_def judgeCalls_append)

lemma judgeView_afterSettle [simp]:
  "judgeView (triggerInterrupt_afterSettle msg s) = judgeView s"
  by (simp add: judgeView_def triggerInterrupt_afterSettle_def emit_def judgeCalls_append)

lemma judgeView_afterFetch [simp]:
  "judgeView (triggerInterrupt_afterFetch outcome msg s) = judgeView s"
  by (cases outcome)
     (simp_all add: judgeView_def triggerInterrupt_afterFetch_def warn_def setTimeout_def)

lemma judgeView_injectSettled [simp]: "judgeView (injectSettled outcome s) = judgeView s"
  by (cases "injecting s") (simp_all add: injectSettled_def, simp add: judgeView_def)

lemma judgeView_judgeSettled [simp]: "judgeView (judgeSettled c reply s) = judgeView s"
  by (cases reply) (simp_all add: judgeSettled_def)

lemma judgeView_triggerPause [simp]: "judgeView (triggerPause s) = judgeView s"
  by (simp add: judgeView_def triggerPause_def emit_def setTimeout_def clearTimeout_def
      judgeCalls_append Let_def split: option.split)

lemma judgeView_handleResume [simp]: "judgeView (handleResume s) = judgeView s"
  by (simp add: judgeView_def handleResume_def emit_def clearTimeout_def
      judgeCalls_append Let_def split: option.split)

lemma judgeView_resumeEffect [simp]: "judgeView (resumeEffect p m msg s) = judgeView s"
  by (cases msg) (simp_all add: resumeEffect_def)

lemma judgeView_detectKeywords [simp]: "judgeView (detectKeywords c s) = judgeView s"
proof -
  have "judgeView (emit (SendSessionSettings tx) (s\<lparr>mode := m\<rparr>)) = judgeView s" for tx m
    by (simp add: judgeView_def emit_def judgeCalls_append)
  then show ?thesis
    by (simp add: detectKeywords_def Let_def)
qed

lemma judgeView_assistantMessage [simp]: "judgeView (assistantMessage c s) = judgeView s"
  by (simp add: judgeView_def assistantMessage_def Let_def)

lemma judgeView_fire [simp]: "judgeView (fire cb s) = judgeView s"
  by (cases cb) (simp_all add: judgeView_def setTimeout_def emit_def judgeCalls_append Let_def
        triggerInterrupt_afterSettle_def)


lemma judgeInv_callLLMJudge: "judgeInv s \<Longrightarrow> judgeInv (callLLMJudge speech s)"
  by (cases "judgeAbortControllerRef s")
     (auto simp: callLLMJudge_def judgeInv_def emit_def judgeCalls_append Let_def
        sorted_wrt_append JUDGE_DEBOUNCE_MS_def lessThan_Suc)

lemma judgeInv_userMessage: "judgeInv s \<Longrightarrow> judgeInv (userMessage c i s)"
proof -
  assume inv: "judgeInv s"
  define s2 where "s2 = (if i \<and> turnStartTimeRef s = 0
                then s\<lparr>turnStartTimeRef := clock s\<rparr> else s)
       \<lparr>conversation := upsertUser c (clock s) (conversation s)\<rparr>"
  define s3 where "s3 = detectKeywords c s2"
  define s4 where "s4 = (if i \<and> \<not> isInterruptingRef s3 then callLLMJudge c s3 else s3)"
  have "judgeView s2 = judgeView s"
    by (simp add: s2_def judgeView_def)
  then have "judgeView s3 = judgeView s"
    by (simp add: s3_def)
  then have "judgeInv s3"
    using inv by (rule judgeInv_view)
  then have i4: "judgeInv s4"
    by (simp add: s4_def judgeInv_callLLMJudge)
  have um: "userMessage c i s =
      (if \<not> i \<and> c \<noteq> []
       then s4\<lparr>conversationHistoryRef := conversationHistoryRef s4 @ [(User, c)],
               turnStartTimeRef := 0\<rparr>
       else s4)"
    by (simp add: userMessage_def Let_def s4_def s3_def s2_def)
  have "judgeView (userMessage c i s) = judgeView s4"
    by (simp add: um judgeView_def)
  then show ?thesis
    using i4 by (rule judgeInv_view)
qed

lemma judgeInv_processMessage:
  assumes inv: "judgeInv s"
  shows "judgeInv (processMessage msg s)"
proof (cases msg)
  case (ChatMetadata x)
  have "judgeView (processMessage msg s) = judgeView s"
    by (simp add: ChatMetadata judgeView_def)
  then show ?thesis using inv by (rule judgeInv_view)
next
  case UserInterruption
  have "judgeView (processMessage msg s) = judgeView s"
    by (simp add: UserInterruption judgeView_def setTimeout_def emit_def judgeCalls_append)
  then show ?thesis using inv by (rule judgeInv_view)
next
  case (UserMessage c i)
  then show ?thesis using inv by (simp add: judgeInv_userMessage)
next
  case (AssistantMessage c)
  have "judgeView (processMessage msg s) = judgeView s"
    by (simp add: AssistantMessage)
  then show ?thesis using inv by (rule judgeInv_view)
next
  case OtherMessage
  then show ?thesis using inv by simp
qed

lemma judgeInv_step:
  assumes inv: "judgeInv s"
  shows "judgeInv (step e s)"
proof (cases e)
  case Fire
  show ?thesis
  proof (cases "earliest (timers s)")
    case None
    then show ?thesis using inv Fire by simp
  next
    case (Some tm)
    obtain h due cb where tm: "tm = (h, due, cb)" by (cases tm) auto
    have "judgeView (fire cb (s\<lparr>clock := max (clock s) due,
                         timers := filter (\<lambda>t. fst t \<noteq> h) (timers s)\<rparr>)) = judgeView s"
      by (simp add: judgeView_def [of "s\<lparr>clock := max (clock s) due,
                         timers := filter (\<lambda>t. fst t \<noteq> h) (timers s)\<rparr>"]
                    judgeView_def [of s])
    then have "judgeView (step e s) = judgeView s"
      using Fire Some tm by simp
    then show ?thesis using inv by (rule judgeInv_view)
  qed
next
  case (Hume dt msg muted)
  have "judgeView (advance dt s) = judgeView s" by simp
  then have "judgeInv (advance dt s)" using inv by (rule judgeInv_view)
  then have p: "judgeInv (processMessage msg (advance dt s))" by (rule judgeInv_processMessage)
  have "judgeView (step e s) = judgeView (processMessage msg (advance dt s))"
    using Hume by (simp add: Let_def)
  then show ?thesis using p by (rule judgeInv_view)
next
  case (JudgeSettled dt c reply)
  have "judgeView (step e s) = judgeView s"
    using JudgeSettled by simp
  then show ?thesis using inv by (rule judgeInv_view)
next
  case (InjectSettled dt outcome)
  have "judgeView (step e s) = judgeView s"
    using InjectSettled by simp
  then show ?thesis using inv by (rule judgeInv_view)
qed

lemma judgeInv_run: "judgeInv s \<Longrightarrow> judgeInv (run evs s)"
  unfolding run_def by (induction evs arbitrary: s) (simp_all add: judgeInv_step)

lemma judgeInv_initial: "judgeInv (initial t0)"
  by (simp add: judgeInv_def initial_def)

lemma judgeInv_last:
  assumes "judgeInv s" and "c \<in> set (map snd (judgeCalls (trace s)))"
  shows "(c \<in> set (aborted s)) = (c \<noteq> snd (last (judgeCalls (trace s))))"
proof -
  from assms have cs: "map snd (judgeCalls (trace s)) = [0..<nextController s]"
    and c: "c < nextController s"
    by (auto simp: judgeInv_def)
  then obtain n where n: "nextController s = Suc n" by (cases "nextController s") auto
  with assms(1) have cur: "judgeAbortControllerRef s = Some n" "set (aborted s) = {..<n}"
    by (auto simp: judgeInv_def split: option.splits)
  have ne: "judgeCalls (trace s) \<noteq> []" using cs n by auto
  have "snd (last (judgeCalls (trace s))) = last (map snd (judgeCalls (trace s)))"
    using ne by (simp add: last_map)
  also have "\<dots> = n" using cs n by simp
  finally have l: "snd (last (judgeCalls (trace s))) = n" .
  have "(c \<in> set (aborted s)) = (c < n)"
    by (simp add: cur(2))
  also have "\<dots> = (c \<noteq> n)"
    using c n by arith
  finally show ?thesis
    by (simp only: l)
qed

text \<open>
  Claim C4. In every run of the component, of the requests sent to the judge only the
  last one is not aborted, and two requests are never less than 400 ms apart; sending a
  new request aborts the one whose controller is stored; and when an aborted request
  ends, whatever it would have answered, nothing changes.
\<close>

theorem only_last_judge_call_survives:
  "(\<forall>c \<in> set (map snd (judgeCalls (trace (run evs (initial t0))))).
       (c \<in> set (aborted (run evs (initial t0)))) =
       (c \<noteq> snd (last (judgeCalls (trace (run evs (initial t0)))))))
   \<and> sorted_wrt (\<lambda>a b. a + 400 \<le> b) (map fst (judgeCalls (trace (run evs (initial t0)))))
   \<and> (callLLMJudge speech s \<noteq> s \<and> judgeAbortControllerRef s = Some c
        \<longrightarrow> c \<in> set (aborted (callLLMJudge speech s)))
   \<and> (c \<in> set (aborted s) \<longrightarrow> judgeSettled c reply s = s)"
proof -
  have inv: "judgeInv (run evs (initial t0))"
    by (rule judgeInv_run [OF judgeInv_initial])
  have a: "\<forall>c \<in> set (map snd (judgeCalls (trace (run evs (initial t0))))).
       (c \<in> set (aborted (run evs (initial t0)))) =
       (c \<noteq> snd (last (judgeCalls (trace (run evs (initial t0))))))"
    using judgeInv_last [OF inv] by blast
  have b: "sorted_wrt (\<lambda>a b. a + 400 \<le> b) (map fst (judgeCalls (trace (run evs (initial t0)))))"
    using inv by (simp add: judgeInv_def)
  have c: "callLLMJudge speech s \<noteq> s \<and> judgeAbortControllerRef s = Some c
        \<longrightarrow> c \<in> set (aborted (callLLMJudge speech s))"
    by (simp add: callLLMJudge_def Let_def emit_def)
  have d: "c \<in> set (aborted s) \<longrightarrow> judgeSettled c reply s = s"
    by (simp add: judgeSettled_def)
  show ?thesis
    by (rule conjI [OF a conjI [OF b conjI [OF c d]]])
qed

theorem only_last_judge_call_survives_witness:
  "judgeCalls (trace (run twoRequestsSession (initial 1000))) = [(3100, 0), (3500, 1)]
   \<and> 0 \<in> set (aborted (run twoRequestsSession (initial 1000)))
   \<and> 1 \<notin> set (aborted (run twoRequestsSession (initial 1000)))
   \<and> judgeSettled 0 (JudgeJson True (Some ''Sorry to interrupt''))
         (run twoRequestsSession (initial 1000)) = run twoRequestsSession (initial 1000)"
proof -
  have calls: "judgeCalls (trace (run twoRequestsSession (initial 1000))) = [(3100, 0), (3500, 1)]"
    by code_simp
  from only_last_judge_call_survives
         [of twoRequestsSession 1000 "[]" "run twoRequestsSession (initial 1000)" 0
            "JudgeJson True (Some ''Sorry to interrupt'')"]
  show ?thesis
    by (simp add: calls)
qed

subsection \<open>The route \<^verbatim>\<open>/api/judge-speech\<close>\<close>

lemma toLowerCase_append: "toLowerCase (a @ b) = toLowerCase a @ toLowerCase b"
  by (simp add: toLowerCase_def)

lemma toLowerCase_fix: "toLowerCase ''Sorry to interrupt, but '' = ''sorry to interrupt, but ''"
  by code_simp

lemma fixed_prefix:
  "startsWith (toLowerCase (''Sorry to interrupt, but '' @ m)) ''sorry to interrupt''"
proof -
  have "toLowerCase (''Sorry to interrupt, but '' @ m) = ''sorry to interrupt, but '' @ toLowerCase m"
    by (simp only: toLowerCase_append toLowerCase_fix)
  then show ?thesis
    by (simp add: startsWith_def)
qed

lemma fixed_prefix_capital:
  "startsWith (''Sorry to interrupt, but '' @ m) ''Sorry to interrupt''"
  by (simp add: startsWith_def)

lemma try_message_prefix:
  assumes "judgeSpeech_try parse body completion = Inr (Json200 True rsn (JStr m))" and "m \<noteq> []"
  shows "startsWith (toLowerCase m) ''sorry to interrupt''"
proof -
  from assms(1) obtain sp raw where b: "body = Returned (JStr sp)" "completion = Returned raw"
    by (auto simp: judgeSpeech_try_def split: outcome.splits jsval.splits if_splits)
  define r where "r = (case jsonMatch (case raw of None \<Rightarrow> [] | Some t \<Rightarrow> trim t) of
                         None \<Rightarrow> defaultResult
                       | Some j \<Rightarrow> (case parse j of None \<Rightarrow> defaultResult | Some r \<Rightarrow> r))"
  have t: "judgeSpeech_try parse body completion =
     (if sp = [] then Inr (JsonError 400 ''Missing or invalid 'speech' field'')
      else if truthy (interrupt r) \<and> truthy (message r)
       then (case message r of
               JStr m \<Rightarrow>
                 Inr (Json200 (interrupt r = JBool True)
                       (if truthy (reason r) then reason r else JStr [])
                       (JStr (if \<not> startsWith (toLowerCase m) ''sorry to interrupt''
                              then ''Sorry to interrupt, but '' @ m else m)))
             | _ \<Rightarrow> Inl TypeError)
       else Inr (Json200 (interrupt r = JBool True)
                  (if truthy (reason r) then reason r else JStr []) (message r)))"
    unfolding r_def by (simp add: judgeSpeech_try_def b Let_def)
  show ?thesis
  proof (cases "truthy (interrupt r) \<and> truthy (message r)")
    case True
    with assms(1) t obtain m0 where m0: "message r = JStr m0"
      and m: "m = (if \<not> startsWith (toLowerCase m0) ''sorry to interrupt''
                   then ''Sorry to interrupt, but '' @ m0 else m0)"
      by (cases "message r") (auto split: if_splits)
    show ?thesis
    proof (cases "startsWith (toLowerCase m0) ''sorry to interrupt''")
      case True
      then show ?thesis by (simp add: m)
    next
      case False
      have "m = ''Sorry to interrupt, but '' @ m0"
        by (rule trans [OF m if_P]) (rule False)
      then show ?thesis
        by (simp only: fixed_prefix)
    qed
  next
    case False
    with assms(1) t have "interrupt r = JBool True" "message r = JStr m"
      by (auto split: if_splits)
    with False assms(2) show ?thesis by simp
  qed
qed

lemma try_fixes_message:
  assumes "sp \<noteq> []" and "jsonMatch (trim raw) = Some j" and "parse j = Some r"
    and "truthy (interrupt r)" and "message r = JStr m0" and "m0 \<noteq> []"
  shows "judgeSpeech_try parse (Returned (JStr sp)) (Returned (Some raw)) =
           Inr (Json200 (interrupt r = JBool True)
                 (if truthy (reason r) then reason r else JStr [])
                 (JStr (if startsWith (toLowerCase m0) ''sorry to interrupt'' then m0
                        else ''Sorry to interrupt, but '' @ m0)))"
  using assms by (simp add: judgeSpeech_try_def Let_def)

lemma try_unparseable:
  assumes "sp \<noteq> []"
    and "jsonMatch (case raw of None \<Rightarrow> [] | Some t \<Rightarrow> trim t) = None
         \<or> (\<exists>j. jsonMatch (case raw of None \<Rightarrow> [] | Some t \<Rightarrow> trim t) = Some j \<and> parse j = None)"
  shows "judgeSpeech_try parse (Returned (JStr sp)) (Returned raw) =
           Inr (Json200 False (JStr []) JNull)"
  using assms by (auto simp: judgeSpeech_try_def Let_def defaultResult_def)

lemma try_never_500:
  "judgeSpeech_try parse body completion = Inr (JsonError st tx) \<Longrightarrow> st = 400"
  by (auto simp: judgeSpeech_try_def Let_def split: outcome.splits jsval.splits if_splits)

lemma try_throws:
  "judgeSpeech_try parse body completion = Inl e \<Longrightarrow>
     body = Threw \<or> completion = Threw \<or> e = TypeError"
  by (auto simp: judgeSpeech_try_def Let_def split: outcome.splits jsval.splits if_splits)

text \<open>
  Claim C9, as the code has it. In every response of the route with \<^verbatim>\<open>interrupt\<close>
  true and a message that is a string and not empty, the message in lower case starts
  with \<^verbatim>\<open>sorry to interrupt\<close>; and when the message of the language model is not
  empty and, in lower case, does not start so, the response carries it with
  \<^verbatim>\<open>Sorry to interrupt, but\<close> and a space put in front.
\<close>

theorem judge_message_prefix:
  "(POST_judge_speech parse key body completion = Json200 True rsn (JStr m) \<and> m \<noteq> []
      \<longrightarrow> startsWith (toLowerCase m) ''sorry to interrupt'')
   \<and> (known key \<and> sp \<noteq> [] \<and> jsonMatch (trim raw) = Some j \<and> parse j = Some r
        \<and> truthy (interrupt r) \<and> message r = JStr m0 \<and> m0 \<noteq> []
        \<and> \<not> startsWith (toLowerCase m0) ''sorry to interrupt''
      \<longrightarrow> POST_judge_speech parse key (Returned (JStr sp)) (Returned (Some raw)) =
            Json200 (interrupt r = JBool True)
              (if truthy (reason r) then reason r else JStr [])
              (JStr (''Sorry to interrupt, but '' @ m0)))"
proof -
  have a: "startsWith (toLowerCase m) ''sorry to interrupt''"
    if "POST_judge_speech parse key body completion = Json200 True rsn (JStr m)" and "m \<noteq> []"
  proof -
    from that(1) have "judgeSpeech_try parse body completion = Inr (Json200 True rsn (JStr m))"
      by (simp add: POST_judge_speech_def split: if_splits sum.splits)
    then show ?thesis
      using that(2) by (rule try_message_prefix)
  qed
  have b: "POST_judge_speech parse key (Returned (JStr sp)) (Returned (Some raw)) =
            Json200 (interrupt r = JBool True)
              (if truthy (reason r) then reason r else JStr [])
              (JStr (''Sorry to interrupt, but '' @ m0))"
    if "known key" "sp \<noteq> []" "jsonMatch (trim raw) = Some j" "parse j = Some r"
       "truthy (interrupt r)" "message r = JStr m0" "m0 \<noteq> []"
       "\<not> startsWith (toLowerCase m0) ''sorry to interrupt''"
  proof -
    have "judgeSpeech_try parse (Returned (JStr sp)) (Returned (Some raw)) =
           Inr (Json200 (interrupt r = JBool True)
                 (if truthy (reason r) then reason r else JStr [])
                 (JStr (if startsWith (toLowerCase m0) ''sorry to interrupt'' then m0
                        else ''Sorry to interrupt, but '' @ m0)))"
      by (rule try_fixes_message [where parse = parse and j = j, OF that(2-7)])
    then show ?thesis
      using that(1,8) by (simp add: POST_judge_speech_def)
  qed
  from a b show ?thesis
    by blast
qed

theorem judge_message_prefix_witness:
  "POST_judge_speech parseReplies (Some ''key'') (Returned (JStr ''um so like you know''))
     (Returned (Some unprefixedReply)) =
     Json200 True (JStr ''rambling'') (JStr ''Sorry to interrupt, but What is the main point?'')
   \<and> startsWith (toLowerCase ''Sorry to interrupt, but What is the main point?'')
         ''sorry to interrupt''"
proof -
  have h: "known (Some ''key'') \<and> ''um so like you know'' \<noteq> []
      \<and> jsonMatch (trim unprefixedReply) = Some unprefixedReply
      \<and> parseReplies unprefixedReply =
            Some \<lparr>interrupt = JBool True, reason = JStr ''rambling'',
                   message = JStr ''What is the main point?''\<rparr>
      \<and> \<not> startsWith (toLowerCase ''What is the main point?'') ''sorry to interrupt''"
    by code_simp
  from judge_message_prefix
         [of parseReplies "Some ''key''" "Returned (JStr ''um so like you know'')"
             "Returned (Some unprefixedReply)" "JStr ''rambling''"
             "''Sorry to interrupt, but What is the main point?''"
             "''um so like you know''" unprefixedReply unprefixedReply
             "\<lparr>interrupt = JBool True, reason = JStr ''rambling'',
               message = JStr ''What is the main point?''\<rparr>"
             "''What is the main point?''"] h
  show ?thesis
    by simp
qed

text \<open>
  The claim as the specification states it fails twice: a message that starts with
  \<^verbatim>\<open>sorry to interrupt\<close> in lower case is passed on as it is and does not start
  with \<^verbatim>\<open>Sorry to interrupt\<close>; and an empty message, which is not null, is passed
  on empty.
\<close>

theorem judge_message_prefix_counterexample:
  "POST_judge_speech parseReplies (Some ''key'') (Returned (JStr ''um so like you know''))
     (Returned (Some lowercaseReply)) =
     Json200 True (JStr ''rambling'') (JStr ''sorry to interrupt, but what is your main goal?'')
   \<and> \<not> startsWith ''sorry to interrupt, but what is your main goal?'' ''Sorry to interrupt''
   \<and> POST_judge_speech parseReplies (Some ''key'') (Returned (JStr ''um so like you know''))
     (Returned (Some emptyMessageReply)) = Json200 True (JStr ''rambling'') (JStr [])
   \<and> \<not> startsWith [] ''Sorry to interrupt''"
  by code_simp

lemma try_llm_throws:
  "sp \<noteq> [] \<Longrightarrow> judgeSpeech_try parse (Returned (JStr sp)) Threw = Inl UpstreamError"
  by (simp add: judgeSpeech_try_def)

lemma try_body_throws: "judgeSpeech_try parse Threw completion = Inl SyntaxError"
  by (simp add: judgeSpeech_try_def)

lemma post_500_iff:
  assumes "known key"
  shows "(\<exists>tx. POST_judge_speech parse key body completion = JsonError 500 tx)
           = (\<exists>e. judgeSpeech_try parse body completion = Inl e)"
proof (cases "judgeSpeech_try parse body completion")
  case (Inl e)
  then show ?thesis using assms by (simp add: POST_judge_speech_def)
next
  case (Inr resp)
  have "resp \<noteq> JsonError 500 tx" for tx
    using try_never_500 [of parse body completion 500 tx] Inr by auto
  then show ?thesis using assms Inr by (simp add: POST_judge_speech_def)
qed

text \<open>
  Claim C10, as the code has it. With the key configured and a \<^verbatim>\<open>speech\<close> that is
  a string and not empty, a reply of the language model in which no object is found, or
  in which what is found does not parse, gives the response 200 with
  \<^verbatim>\<open>interrupt\<close> false, an empty reason and no message. With the key configured,
  the response is a 500 exactly when something is thrown in the \<^verbatim>\<open>try\<close> block:
  reading the request or the call of the language model throwing gives a 500, and what
  is thrown is one of these two or a \<^verbatim>\<open>TypeError\<close>. Without the key the response
  is a 500 whatever the request is.
\<close>

theorem unparseable_reply_is_no_interrupt:
  "(known key \<and> sp \<noteq> []
      \<and> (jsonMatch (case raw of None \<Rightarrow> [] | Some t \<Rightarrow> trim t) = None
           \<or> (\<exists>j. jsonMatch (case raw of None \<Rightarrow> [] | Some t \<Rightarrow> trim t) = Some j
                    \<and> parse j = None))
      \<longrightarrow> POST_judge_speech parse key (Returned (JStr sp)) (Returned raw) =
            Json200 False (JStr []) JNull)
   \<and> (known key
      \<longrightarrow> (\<exists>tx. POST_judge_speech parse key body completion = JsonError 500 tx) =
           (\<exists>e. judgeSpeech_try parse body completion = Inl e))
   \<and> (known key \<and> sp \<noteq> []
      \<longrightarrow> POST_judge_speech parse key (Returned (JStr sp)) Threw =
            JsonError 500 ''Failed to analyze speech'')
   \<and> (known key
      \<longrightarrow> POST_judge_speech parse key Threw completion =
            JsonError 500 ''Failed to analyze speech'')
   \<and> (judgeSpeech_try parse body completion = Inl e
      \<longrightarrow> body = Threw \<or> completion = Threw \<or> e = TypeError)
   \<and> (\<not> known key
      \<longrightarrow> POST_judge_speech parse key body completion =
            JsonError 500 ''GROQ_API_KEY not configured'')"
proof -
  have a: "POST_judge_speech parse key (Returned (JStr sp)) (Returned raw) =
            Json200 False (JStr []) JNull"
    if "known key" "sp \<noteq> []"
       "jsonMatch (case raw of None \<Rightarrow> [] | Some t \<Rightarrow> trim t) = None
           \<or> (\<exists>j. jsonMatch (case raw of None \<Rightarrow> [] | Some t \<Rightarrow> trim t) = Some j
                    \<and> parse j = None)"
    using try_unparseable [OF that(2,3)] that(1) by (simp add: POST_judge_speech_def)
  have b: "POST_judge_speech parse key (Returned (JStr sp)) Threw =
            JsonError 500 ''Failed to analyze speech''"
    if "known key" "sp \<noteq> []"
    using that try_llm_throws [of sp parse] by (simp add: POST_judge_speech_def)
  have c: "POST_judge_speech parse key Threw completion =
            JsonError 500 ''Failed to analyze speech''"
    if "known key"
    using that try_body_throws [of parse completion] by (simp add: POST_judge_speech_def)
  have d: "POST_judge_speech parse key body completion =
            JsonError 500 ''GROQ_API_KEY not configured''"
    if "\<not> known key"
    using that by (simp add: POST_judge_speech_def)
  from a b c d post_500_iff [of key parse body completion]
    try_throws [of parse body completion e]
  show ?thesis
    by blast
qed

theorem unparseable_reply_is_no_interrupt_witness:
  "known (Some ''key'')
   \<and> jsonMatch (trim ''The user is speaking normally.'') = None
   \<and> POST_judge_speech parseReplies (Some ''key'') (Returned (JStr ''um so like you know''))
       (Returned (Some ''The user is speaking normally.'')) = Json200 False (JStr []) JNull
   \<and> jsonMatch (trim ''{not json}'') = Some ''{not json}''
   \<and> parseReplies ''{not json}'' = None
   \<and> POST_judge_speech parseReplies (Some ''key'') (Returned (JStr ''um so like you know''))
       (Returned (Some ''{not json}'')) = Json200 False (JStr []) JNull
   \<and> POST_judge_speech parseReplies (Some ''key'') (Returned (JStr ''um so like you know''))
       Threw = JsonError 500 ''Failed to analyze speech''
   \<and> (\<exists>e. judgeSpeech_try parseReplies (Returned (JStr ''um so like you know'')) Threw = Inl e)"
proof -
  have h: "known (Some ''key'') \<and> ''um so like you know'' \<noteq> []
     \<and> jsonMatch (trim ''The user is speaking normally.'') = None
     \<and> jsonMatch (trim ''{not json}'') = Some ''{not json}''
     \<and> parseReplies ''{not json}'' = None"
    by code_simp
  from unparseable_reply_is_no_interrupt
         [where key = "Some ''key''" and sp = "''um so like you know''"
            and raw = "Some ''The user is speaking normally.''" and parse = parseReplies] h
  have p: "POST_judge_speech parseReplies (Some ''key'') (Returned (JStr ''um so like you know''))
       (Returned (Some ''The user is speaking normally.'')) = Json200 False (JStr []) JNull"
    by simp
  from unparseable_reply_is_no_interrupt
         [where key = "Some ''key''" and sp = "''um so like you know''"
            and raw = "Some ''{not json}''" and parse = parseReplies] h
  have q: "POST_judge_speech parseReplies (Some ''key'') (Returned (JStr ''um so like you know''))
       (Returned (Some ''{not json}'')) = Json200 False (JStr []) JNull"
    by simp
  from unparseable_reply_is_no_interrupt
         [where key = "Some ''key''" and sp = "''um so like you know''"
            and parse = parseReplies and body = "Returned (JStr ''um so like you know'')"
            and completion = Threw] h
  have r: "POST_judge_speech parseReplies (Some ''key'') (Returned (JStr ''um so like you know''))
       Threw = JsonError 500 ''Failed to analyze speech''
     \<and> (\<exists>e. judgeSpeech_try parseReplies (Returned (JStr ''um so like you know'')) Threw = Inl e)"
    by blast
  from h p q r show ?thesis
    by blast
qed

text \<open>
  The claim as the specification states it fails when the key is not configured: the
  request carries a valid \<^verbatim>\<open>speech\<close>, nothing is thrown (the \<^verbatim>\<open>try\<close> block,
  had it run on this reply, would have returned the response 200), and the response is
  a 500.
\<close>

theorem missing_key_500_counterexample:
  "POST_judge_speech parseReplies None (Returned (JStr ''um so like you know''))
     (Returned (Some ''The user is speaking normally.'')) =
     JsonError 500 ''GROQ_API_KEY not configured''
   \<and> judgeSpeech_try parseReplies (Returned (JStr ''um so like you know''))
       (Returned (Some ''The user is speaking normally.'')) =
     Inr (Json200 False (JStr []) JNull)"
  by code_simp

end
